theory Spec2Isabelle
  imports Complex_Main "HOL-Library.Word"
begin

section \<open>Python values, exceptions and library boundaries\<close>

text \<open>
  The preprocessing module is Python over numpy, librosa, OpenCV and audiomentations.
  Floating-point samples and decibel values are modelled as reals, Python integers as
  \<open>int\<close>/\<open>nat\<close>, a one-dimensional array as a list and a two-dimensional array as the
  list of its rows, \<open>shape[0]\<close> being \<open>nrows\<close> and \<open>shape[1]\<close> being \<open>ncols\<close>.  A numpy
  array is rectangular (\<open>rect\<close>); an array without rows is read as having no columns
  either.  A raised exception is the left summand of a result.

  \<open>KeyboardInterrupt\<close> stands for the exceptions that do not derive from Python's
  \<open>Exception\<close> class: a clause \<open>except Exception\<close> does not catch them.
\<close>

datatype exc =
    TypeError
  | ValueError
  | ZeroDivisionError
  | AttributeError
  | IOError
  | cv2_error
  | KeyboardInterrupt

fun is_Exception :: "exc \<Rightarrow> bool" where
  "is_Exception KeyboardInterrupt = False"
| "is_Exception _ = True"

type_synonym waveform = "real list"
type_synonym 'a matrix = "'a list list"

definition nrows :: "'a matrix \<Rightarrow> nat" where
  "nrows m = length m"

definition ncols :: "'a matrix \<Rightarrow> nat" where
  "ncols m = (case m of [] \<Rightarrow> 0 | r # _ \<Rightarrow> length r)"

definition rect :: "'a matrix \<Rightarrow> bool" where
  "rect m = list_all (\<lambda>r. length r = ncols m) m"

text \<open>
  The librosa functions the module calls are not part of the repository; they are
  parameters of the model.  Each of the four calls that \<open>load_and_preprocess_audio\<close>
  makes may raise, as the library's functions do (\<open>librosa.util.normalize\<close> raises
  \<open>ValueError\<close> on an empty clip, for one); the source guards only the first of them.
  The mel power matrix is taken as it comes.
\<close>

record librosa =
  librosa_load :: "string \<Rightarrow> exc + waveform"
  effects_trim :: "waveform \<Rightarrow> exc + waveform"
  feature_rms :: "waveform \<Rightarrow> exc + real list"
  util_normalize :: "waveform \<Rightarrow> exc + waveform"
  feature_melspectrogram :: "waveform \<Rightarrow> real matrix"

section \<open>load_and_preprocess_audio\<close>

text \<open>\<open>np.where(xs > thr)[0]\<close>: the indices, in increasing order, of the entries above \<open>thr\<close>.\<close>

definition np_where_gt :: "real list \<Rightarrow> real \<Rightarrow> nat list" where
  "np_where_gt xs thr = filter (\<lambda>i. xs ! i > thr) [0..<length xs]"

text \<open>\<open>y[start:stop]\<close> for \<open>0 \<le> start\<close> and \<open>0 \<le> stop\<close>; numpy clips both to the length.\<close>

definition py_slice :: "'a list \<Rightarrow> int \<Rightarrow> int \<Rightarrow> 'a list" where
  "py_slice y start stop = drop (nat start) (take (nat stop) y)"

text \<open>\<open>np.max\<close> of an array; on an empty array numpy raises \<open>ValueError\<close>.\<close>

definition np_max :: "'a::linorder list \<Rightarrow> exc + 'a" where
  "np_max xs = (if xs = [] then Inl ValueError else Inr (Max (set xs)))"

text \<open>
  What the function writes to standard output: the line
  \<open>Error loading {file_path}: {e}\<close> of the handler, kept as its two parts.
\<close>

datatype line = Error_loading string exc

text \<open>
  Lines 40--75.  The result is what the call returns or raises, together with the lines
  it printed.  Only the read is inside the \<open>try\<close>: a failure there is caught by
  \<open>except Exception\<close>, printed and answered with \<open>None\<close>.  An exception of
  \<open>librosa.effects.trim\<close>, \<open>librosa.feature.rms\<close>, \<open>np.max\<close> or
  \<open>librosa.util.normalize\<close> leaves the function.
\<close>

definition load_and_preprocess_audio ::
  "librosa \<Rightarrow> string \<Rightarrow> (exc + waveform option) \<times> line list" where
  "load_and_preprocess_audio L file_path =
     (case librosa_load L file_path of
        Inl e \<Rightarrow>
          (if is_Exception e then (Inr None, [Error_loading file_path e]) else (Inl e, []))
      | Inr y0 \<Rightarrow>
          (case effects_trim L y0 of
             Inl e \<Rightarrow> (Inl e, [])
           | Inr y \<Rightarrow>
               (let frame_length = 1024;
                    hop_length = 512
                in case feature_rms L y of
                     Inl e \<Rightarrow> (Inl e, [])
                   | Inr energy \<Rightarrow>
                       (case np_max energy of
                          Inl e \<Rightarrow> (Inl e, [])
                        | Inr mx \<Rightarrow>
                            let threshold = 0.03 * mx;
                                active_frames = np_where_gt energy threshold;
                                y' = (if length active_frames > 0 then
                                        let start_sample =
                                              max 0 (int (hd active_frames) * hop_length
                                                     - frame_length);
                                            end_sample =
                                              min (int (length y))
                                                ((int (last active_frames) + 1) * hop_length
                                                 + frame_length)
                                        in py_slice y start_sample end_sample
                                      else y)
                            in case util_normalize L y' of
                                 Inl e \<Rightarrow> (Inl e, [])
                               | Inr yn \<Rightarrow> (Inr (Some yn), [])))))"

section \<open>create_mel_spectrogram\<close>

text \<open>
  \<open>librosa.power_to_db(S, ref=np.max)\<close> is library code; the model follows the
  library's definition with its defaults \<open>amin = 1e-10\<close> and \<open>top_db = 80\<close>: the
  reference is the largest entry of \<open>S\<close>, both sides of the quotient are clipped below
  at \<open>amin\<close>, and the result is clipped below at its own maximum minus \<open>top_db\<close>.
\<close>

definition power_to_db :: "real matrix \<Rightarrow> exc + real matrix" where
  "power_to_db S =
     (case np_max (concat S) of
        Inl e \<Rightarrow> Inl e
      | Inr ref_value \<Rightarrow>
          (let amin = 1 / 10 ^ 10;
               top_db = 80;
               log_spec =
                 map (map (\<lambda>s. 10 * log 10 (max amin s) - 10 * log 10 (max amin ref_value))) S
           in case np_max (concat log_spec) of
                Inl e \<Rightarrow> Inl e
              | Inr mx \<Rightarrow> Inr (map (map (\<lambda>v. max v (mx - top_db))) log_spec)))"

text \<open>
  Lines 92--106, the trailing crop, on the decibel matrix.  \<open>spec_energy\<close> is the
  column-wise sum \<open>np.sum(np.power(10, mel_spec_db/10), axis=0) + eps\<close>.
\<close>

definition crop_trailing :: "real matrix \<Rightarrow> exc + real matrix" where
  "crop_trailing mel_spec_db =
     (let eps = 1 / 10 ^ 10;
          spec_energy =
            map (\<lambda>j. sum_list (map (\<lambda>r. 10 powr (r ! j / 10)) mel_spec_db) + eps)
              [0..<ncols mel_spec_db]
      in case np_max spec_energy of
           Inl e \<Rightarrow> Inl e
         | Inr mx \<Rightarrow>
             let threshold = 0.01 * mx;
                 active_cols = np_where_gt spec_energy threshold
             in if length active_cols > 0 then
                  let padding = 5;
                      end_col =
                        min (int (last active_cols) + padding) (int (ncols mel_spec_db) - 1)
                  in Inr (map (take (nat (end_col + 1))) mel_spec_db)
                else Inr mel_spec_db)"

text \<open>Lines 77--107: the mel power spectrogram is librosa's; then decibels, then the crop.\<close>

definition create_mel_spectrogram :: "librosa \<Rightarrow> waveform \<Rightarrow> exc + real matrix" where
  "create_mel_spectrogram L audio =
     (let mel_spec = feature_melspectrogram L audio
      in case power_to_db mel_spec of
           Inl e \<Rightarrow> Inl e
         | Inr mel_spec_db \<Rightarrow> crop_trailing mel_spec_db)"

text \<open>
  The words of the specification for the two energy-based trims: a frame (a column) is
  active when its energy exceeds the given share of the largest energy.
\<close>

definition active_frame :: "real list \<Rightarrow> nat \<Rightarrow> bool" where
  "active_frame energy i = (i < length energy \<and> energy ! i > 0.03 * Max (set energy))"

definition col_energy :: "real matrix \<Rightarrow> nat \<Rightarrow> real" where
  "col_energy m j = (\<Sum>i<nrows m. 10 powr (m ! i ! j / 10)) + 1 / 10 ^ 10"

definition col_active :: "real matrix \<Rightarrow> nat \<Rightarrow> bool" where
  "col_active m j =
     (j < ncols m \<and> col_energy m j > 0.01 * Max (col_energy m ` {..<ncols m}))"

section \<open>The process state: numpy arrays and numpy's global generator\<close>

text \<open>
  \<open>spec_augment\<close> writes into an array and draws from \<open>np.random\<close>.  It and
  \<open>resize_for_cnn\<close> are modelled as running in a state: the arrays that exist, each at
  an address (its index), and the generator.  The generator is the stream of raw values
  it will yield and the number already drawn; quantifying over the stream covers every
  outcome of a draw.
\<close>

record world =
  arrays :: "real matrix list"
  draws :: "nat \<Rightarrow> nat"
  drawn :: nat

text \<open>
  \<open>np.random.randint(low, high)\<close>: an integer in \<open>[low, high)\<close>; an empty range raises
  \<open>ValueError\<close> and leaves the generator alone.
\<close>

definition np_random_randint :: "int \<Rightarrow> int \<Rightarrow> world \<Rightarrow> (exc + int) \<times> world" where
  "np_random_randint low high w =
     (if high \<le> low then (Inl ValueError, w)
      else (Inr (low + int (draws w (drawn w)) mod (high - low)), w\<lparr>drawn := drawn w + 1\<rparr>))"

text \<open>\<open>np.min\<close> over all cells of a two-dimensional array.\<close>

definition np_min :: "real matrix \<Rightarrow> exc + real" where
  "np_min m = (if concat m = [] then Inl ValueError else Inr (Min (set (concat m))))"

text \<open>\<open>spec.copy()\<close>: a new array with the same cells, at a fresh address.\<close>

definition array_copy :: "nat \<Rightarrow> world \<Rightarrow> nat \<times> world" where
  "array_copy a w = (length (arrays w), w\<lparr>arrays := arrays w @ [arrays w ! a]\<rparr>)"

text \<open>The slice assignments \<open>spec[lo:hi, :] = v\<close> and \<open>spec[:, lo:hi] = v\<close>, for \<open>0 \<le> lo\<close>.\<close>

definition assign_rows :: "nat \<Rightarrow> nat \<Rightarrow> 'a \<Rightarrow> 'a matrix \<Rightarrow> 'a matrix" where
  "assign_rows lo hi v m =
     map (\<lambda>i. if lo \<le> i \<and> i < hi then map (\<lambda>_. v) (m ! i) else m ! i) [0..<length m]"

definition assign_cols :: "nat \<Rightarrow> nat \<Rightarrow> 'a \<Rightarrow> 'a matrix \<Rightarrow> 'a matrix" where
  "assign_cols lo hi v m =
     map (\<lambda>r. map (\<lambda>j. if lo \<le> j \<and> j < hi then v else r ! j) [0..<length r]) m"

section \<open>spec_augment\<close>

text \<open>
  Lines 189--192, the frequency-mask loop over \<open>range(num_masks)\<close>, on the array at
  address \<open>spec\<close>; the right-hand side \<open>np.min(spec)\<close> is evaluated before the store.
\<close>

fun freq_masks :: "nat \<Rightarrow> int \<Rightarrow> nat \<Rightarrow> world \<Rightarrow> (exc + unit) \<times> world" where
  "freq_masks 0 freq_mask_param spec w = (Inr (), w)"
| "freq_masks (Suc n) freq_mask_param spec w =
     (case np_random_randint 0 freq_mask_param w of
        (Inl e, w1) \<Rightarrow> (Inl e, w1)
      | (Inr f, w1) \<Rightarrow>
          (case np_random_randint 0 (int (nrows (arrays w1 ! spec)) - f) w1 of
             (Inl e, w2) \<Rightarrow> (Inl e, w2)
           | (Inr f0, w2) \<Rightarrow>
               (case np_min (arrays w2 ! spec) of
                  Inl e \<Rightarrow> (Inl e, w2)
                | Inr v \<Rightarrow>
                    freq_masks n freq_mask_param spec
                      (w2\<lparr>arrays := (arrays w2)
                            [spec := assign_rows (nat f0) (nat (f0 + f)) v (arrays w2 ! spec)]\<rparr>))))"

text \<open>Lines 195--198, the time-mask loop.\<close>

fun time_masks :: "nat \<Rightarrow> int \<Rightarrow> nat \<Rightarrow> world \<Rightarrow> (exc + unit) \<times> world" where
  "time_masks 0 time_mask_param spec w = (Inr (), w)"
| "time_masks (Suc n) time_mask_param spec w =
     (case np_random_randint 0 time_mask_param w of
        (Inl e, w1) \<Rightarrow> (Inl e, w1)
      | (Inr t, w1) \<Rightarrow>
          (case np_random_randint 0 (int (ncols (arrays w1 ! spec)) - t) w1 of
             (Inl e, w2) \<Rightarrow> (Inl e, w2)
           | (Inr t0, w2) \<Rightarrow>
               (case np_min (arrays w2 ! spec) of
                  Inl e \<Rightarrow> (Inl e, w2)
                | Inr v \<Rightarrow>
                    time_masks n time_mask_param spec
                      (w2\<lparr>arrays := (arrays w2)
                            [spec := assign_cols (nat t0) (nat (t0 + t)) v (arrays w2 ! spec)]\<rparr>))))"

text \<open>
  Lines 182--200.  The argument is the address of the caller's array; the result is the
  address of the masked copy.  The defaults are \<open>freq_mask_param = 10\<close>,
  \<open>time_mask_param = 20\<close> and \<open>num_masks = 2\<close>.
\<close>

definition spec_augment :: "nat \<Rightarrow> int \<Rightarrow> int \<Rightarrow> nat \<Rightarrow> world \<Rightarrow> (exc + nat) \<times> world" where
  "spec_augment spec freq_mask_param time_mask_param num_masks w =
     (case array_copy spec w of
        (spec', w0) \<Rightarrow>
          (case freq_masks num_masks freq_mask_param spec' w0 of
             (Inl e, w1) \<Rightarrow> (Inl e, w1)
           | (Inr _, w1) \<Rightarrow>
               (case time_masks num_masks time_mask_param spec' w1 of
                  (Inl e, w2) \<Rightarrow> (Inl e, w2)
                | (Inr _, w2) \<Rightarrow> (Inr spec', w2))))"

text \<open>The words of the specification: cell \<open>i\<close> lies in the mask that starts at \<open>p\<close> with width \<open>n\<close>.\<close>

definition in_mask :: "nat \<Rightarrow> nat \<Rightarrow> nat \<Rightarrow> bool" where
  "in_mask p n i = (p \<le> i \<and> i < p + n)"

section \<open>resize_for_cnn\<close>

text \<open>
  OpenCV is a parameter.  \<open>cv2.resize\<close> is used at two element types; its second
  argument is \<open>dsize = (width, height)\<close>, and it raises \<open>cv2.error\<close> on an empty source.
  \<open>COLORMAP_JET\<close> is the palette, a table from intensity to a BGR triple.
\<close>

type_synonym pixel = "8 word \<times> 8 word \<times> 8 word"

record cv2 =
  resize_f64 :: "real matrix \<Rightarrow> nat \<times> nat \<Rightarrow> exc + real matrix"
  resize_u8 :: "8 word matrix \<Rightarrow> nat \<times> nat \<Rightarrow> exc + 8 word matrix"
  COLORMAP_JET :: "8 word \<Rightarrow> pixel"

definition applyColorMap :: "cv2 \<Rightarrow> 8 word matrix \<Rightarrow> pixel matrix" where
  "applyColorMap cv img = map (map (COLORMAP_JET cv)) img"

definition cvtColor_BGR2RGB :: "pixel matrix \<Rightarrow> pixel matrix" where
  "cvtColor_BGR2RGB img = map (map (\<lambda>(b, g, r). (r, g, b))) img"

text \<open>\<open>astype(np.uint8)\<close>: truncation towards zero, then the low eight bits.\<close>

definition astype_uint8 :: "real \<Rightarrow> 8 word" where
  "astype_uint8 x = word_of_int (if 0 \<le> x then \<lfloor>x\<rfloor> else \<lceil>x\<rceil>)"

text \<open>The shape of a colour image: height, width and the three channels of a pixel.\<close>

definition shape3 :: "pixel matrix \<Rightarrow> nat \<times> nat \<times> nat" where
  "shape3 img = (nrows img, ncols img, 3)"

text \<open>
  Lines 109--146.  The function runs in the process state like \<open>spec_augment\<close>: its
  argument is the address of the spectrogram, and it returns the state it leaves.
  \<open>spec.shape[1] - n_mels\<close> is an integer and the quotient a true division, which
  raises \<open>ZeroDivisionError\<close> for an array without rows.  The default \<open>target_size\<close> is
  \<open>(224, 224)\<close>; the parameter is written \<open>target_size'\<close> because the word library owns
  the plain name.
\<close>

definition resize_for_cnn ::
  "cv2 \<Rightarrow> nat \<Rightarrow> nat \<times> nat \<Rightarrow> world \<Rightarrow> (exc + pixel matrix) \<times> world" where
  "resize_for_cnn cv spec target_size' w =
     (let n_mels = nrows (arrays w ! spec)
      in if n_mels = 0 then (Inl ZeroDivisionError, w)
         else
           case (if \<bar>real_of_int (int (ncols (arrays w ! spec)) - int n_mels)\<bar> / real n_mels > 0.2
                 then resize_f64 cv (arrays w ! spec) (n_mels, n_mels)
                 else Inr (arrays w ! spec)) of
             Inl e \<Rightarrow> (Inl e, w)
           | Inr square_spec \<Rightarrow>
               (case np_min square_spec of
                  Inl e \<Rightarrow> (Inl e, w)
                | Inr spec_min \<Rightarrow>
                    (case np_max (concat square_spec) of
                       Inl e \<Rightarrow> (Inl e, w)
                     | Inr spec_max \<Rightarrow>
                         (let spec_normalized =
                                map (map (\<lambda>x. (x - spec_min) / (spec_max - spec_min + 1 / 10 ^ 10)))
                                  square_spec;
                              spec_img = map (map (\<lambda>x. astype_uint8 (x * 255))) spec_normalized
                          in case (if target_size' \<noteq> (n_mels, n_mels)
                                   then resize_u8 cv spec_img (snd target_size', fst target_size')
                                   else Inr spec_img) of
                               Inl e \<Rightarrow> (Inl e, w)
                             | Inr spec_img_resized \<Rightarrow>
                                 (Inr (cvtColor_BGR2RGB (applyColorMap cv spec_img_resized)), w)))))"

section \<open>get_audio_augmenter\<close>

text \<open>
  The audiomentations classes are parameters: each constructor takes its keyword
  arguments and returns a transform or raises (\<open>TypeError\<close> on a keyword it does not
  know, \<open>AttributeError\<close> when the class itself is missing from the installed
  version).  \<open>Compose\<close> takes the list of transforms.
\<close>

type_synonym kwargs = "(string \<times> real) list"

record ('t, 'c) audiomentations =
  AddGaussianNoise :: "kwargs \<Rightarrow> exc + 't"
  TimeStretch :: "kwargs \<Rightarrow> exc + 't"
  PitchShift :: "kwargs \<Rightarrow> exc + 't"
  Gain :: "kwargs \<Rightarrow> exc + 't"
  Compose :: "'t list \<Rightarrow> exc + 'c"

text \<open>A list display evaluates its elements from left to right; the first raise ends it.\<close>

fun py_list :: "(exc + 'a) list \<Rightarrow> exc + 'a list" where
  "py_list [] = Inr []"
| "py_list (Inl e # xs) = Inl e"
| "py_list (Inr x # xs) = (case py_list xs of Inl e \<Rightarrow> Inl e | Inr ys \<Rightarrow> Inr (x # ys))"

text \<open>A call whose argument expression may already have raised.\<close>

definition py_call :: "('a \<Rightarrow> exc + 'b) \<Rightarrow> exc + 'a \<Rightarrow> exc + 'b" where
  "py_call f arg = (case arg of Inl e \<Rightarrow> Inl e | Inr x \<Rightarrow> f x)"

text \<open>The keyword arguments of lines 156--159 and 168.\<close>

definition noise_args :: kwargs where
  "noise_args = [(''min_amplitude'', 0.001), (''max_amplitude'', 0.015), (''p'', 0.5)]"

definition stretch_args :: kwargs where
  "stretch_args = [(''min_rate'', 0.8), (''max_rate'', 1.2), (''p'', 0.5)]"

definition pitch_args :: kwargs where
  "pitch_args = [(''min_semitones'', - 4), (''max_semitones'', 4), (''p'', 0.5)]"

definition gain_in_db_args :: kwargs where
  "gain_in_db_args = [(''min_gain_in_db'', - 6), (''max_gain_in_db'', 6), (''p'', 0.5)]"

definition gain_db_args :: kwargs where
  "gain_db_args = [(''min_gain_db'', - 6), (''max_gain_db'', 6), (''p'', 0.5)]"

text \<open>
  Lines 149--179.  Each \<open>except TypeError\<close> catches \<open>TypeError\<close> only; the last
  \<open>Compose\<close> stands outside every \<open>try\<close>.
\<close>

definition get_audio_augmenter :: "('t, 'c) audiomentations \<Rightarrow> exc + 'c" where
  "get_audio_augmenter A =
     (case py_call (Compose A)
             (py_list [AddGaussianNoise A noise_args, TimeStretch A stretch_args,
                       PitchShift A pitch_args, Gain A gain_in_db_args]) of
        Inr augmenter \<Rightarrow> Inr augmenter
      | Inl e \<Rightarrow>
          if e = TypeError then
            (case py_call (Compose A)
                    (py_list [AddGaussianNoise A noise_args, TimeStretch A stretch_args,
                              PitchShift A pitch_args, Gain A gain_db_args]) of
               Inr augmenter \<Rightarrow> Inr augmenter
             | Inl e' \<Rightarrow>
                 if e' = TypeError then
                   py_call (Compose A)
                     (py_list [AddGaussianNoise A noise_args, TimeStretch A stretch_args])
                 else Inl e')
          else Inl e)"

section \<open>Auxiliary notions and concrete inputs\<close>

text \<open>The decibel value of one cell relative to the reference, before the \<open>top_db\<close> clip.\<close>

definition to_db :: "real \<Rightarrow> real \<Rightarrow> real" where
  "to_db ref_value s =
     10 * log 10 (max (1 / 10 ^ 10) s) - 10 * log 10 (max (1 / 10 ^ 10) ref_value)"

text \<open>
  \<open>librosa.util.normalize\<close> with its defaults (\<open>norm=np.inf\<close>, axis 0): an empty
  clip is refused with \<open>ValueError\<close> (the maximum of no magnitudes); otherwise the
  samples are divided by the peak magnitude, and a silent clip is left as it is.
\<close>

definition peak_normalize :: "waveform \<Rightarrow> exc + waveform" where
  "peak_normalize y =
     (if y = [] then Inl ValueError
      else let peak = Max (set (map abs y))
           in Inr (if peak = 0 then y else map (\<lambda>x. x / peak) y))"


text \<open>
  A clip of 5120 samples: silence, a tone of amplitude \<open>1/2\<close> from sample 1000 to 3999,
  silence.  Eleven energy frames, of which frames 4 to 6 are active; a mel power matrix
  of two bands and nine frames that decays to \<open>-30\<close> dB.
\<close>

definition tone_clip :: waveform where
  "tone_clip = replicate 1000 0 @ replicate 3000 (1/2) @ replicate 1120 0"

definition decay_power :: "real matrix" where
  "decay_power =
     [[1, 1/10, 1/1000, 1/1000, 1/1000, 1/1000, 1/1000, 1/1000, 1/1000],
      [1/10, 1/100, 1/1000, 1/1000, 1/1000, 1/1000, 1/1000, 1/1000, 1/1000]]"

definition decay_db :: "real matrix" where
  "decay_db =
     [[0, -10, -30, -30, -30, -30, -30, -30, -30],
      [-10, -20, -30, -30, -30, -30, -30, -30, -30]]"

definition lib_tone :: librosa where
  "lib_tone =
     \<lparr> librosa_load = (\<lambda>_. Inr tone_clip),
       effects_trim = Inr,
       feature_rms = (\<lambda>_. Inr [0, 0, 0, 1/100, 1/2, 1/4, 1/2, 1/100, 0, 0, 0]),
       util_normalize = peak_normalize,
       feature_melspectrogram = (\<lambda>_. decay_power) \<rparr>"


text \<open>
  A mel power matrix of 128 bands and seven frames, the schematic of a click followed
  by a faint tone: a broadband click in frame 0 (every band at \<open>99/100\<close>), five empty
  frames, and in frame 6 a tone that is the clip's peak power (\<open>1\<close>) but sits in a
  single band.
\<close>

definition click_then_tone :: "real matrix" where
  "click_then_tone =
     [99/100, 0, 0, 0, 0, 0, 1] # replicate 127 [99/100, 0, 0, 0, 0, 0, 0]"

definition lib_click :: librosa where
  "lib_click =
     \<lparr> librosa_load = (\<lambda>_. Inl IOError),
       effects_trim = Inr,
       feature_rms = (\<lambda>_. Inr [1]),
       util_normalize = peak_normalize,
       feature_melspectrogram = (\<lambda>_. click_then_tone) \<rparr>"

text \<open>Cells either keep their value or receive the minimum of the matrix.\<close>

definition masked_from :: "real matrix \<Rightarrow> real matrix \<Rightarrow> bool" where
  "masked_from m m' =
     (map length m' = map length m \<and>
      (\<forall>i<length m. \<forall>j<length (m ! i).
          m' ! i ! j = m ! i ! j \<or> m' ! i ! j = Min (set (concat m))))"

text \<open>Between two states, only the array at one address changed, and only by masking.\<close>

definition only_masked :: "nat \<Rightarrow> world \<Rightarrow> world \<Rightarrow> bool" where
  "only_masked a w w' =
     (length (arrays w') = length (arrays w) \<and>
      (\<forall>b. b \<noteq> a \<longrightarrow> arrays w' ! b = arrays w ! b) \<and>
      draws w' = draws w \<and>
      masked_from (arrays w ! a) (arrays w' ! a))"

text \<open>
  A state with one array, a three by three grid, and a generator whose first eight raw
  values make the default call mask row 0, row 1, column 0 and column 1; and a state
  whose one array has ten rows and twenty columns.
\<close>

definition grid :: "real matrix" where
  "grid = [[1, 2, 3], [4, 5, 6], [7, 8, 9]]"

definition grid_draws :: "nat \<Rightarrow> nat" where
  "grid_draws k = (if k < 8 then [1, 0, 1, 1, 1, 0, 1, 1] ! k else 0)"

definition grid_world :: world where
  "grid_world = \<lparr> arrays = [grid], draws = grid_draws, drawn = 0 \<rparr>"

definition wide_world :: world where
  "wide_world = \<lparr> arrays = [replicate 10 (replicate 20 0)], draws = grid_draws, drawn = 0 \<rparr>"

text \<open>
  Versions of the augmentation library.  A transform is its class name with its keyword
  arguments; a constructor accepts exactly the keyword names listed for it.
\<close>

datatype transform = Transform string kwargs

definition ctor :: "string \<Rightarrow> string list \<Rightarrow> kwargs \<Rightarrow> exc + transform" where
  "ctor name accepted kw =
     (if list_all (\<lambda>k. k \<in> set accepted) (map fst kw) then Inr (Transform name kw)
      else Inl TypeError)"

definition lib_gain_db :: "(transform, transform list) audiomentations" where
  "lib_gain_db =
     \<lparr> AddGaussianNoise = ctor ''AddGaussianNoise'' [''min_amplitude'', ''max_amplitude'', ''p''],
       TimeStretch = ctor ''TimeStretch'' [''min_rate'', ''max_rate'', ''p''],
       PitchShift = ctor ''PitchShift'' [''min_semitones'', ''max_semitones'', ''p''],
       Gain = ctor ''Gain'' [''min_gain_db'', ''max_gain_db'', ''p''],
       Compose = Inr \<rparr>"

text \<open>A version whose noise transform takes other keyword names.\<close>

definition lib_noise_renamed :: "(transform, transform list) audiomentations" where
  "lib_noise_renamed =
     lib_gain_db \<lparr> AddGaussianNoise := ctor ''AddGaussianNoise'' [''min_std'', ''max_std'', ''p''] \<rparr>"

text \<open>A version that has no \<open>PitchShift\<close> class.\<close>

definition lib_no_pitch :: "(transform, transform list) audiomentations" where
  "lib_no_pitch = lib_gain_db \<lparr> PitchShift := (\<lambda>_. Inl AttributeError) \<rparr>"

text \<open>A version whose pitch transform takes other keyword names.\<close>

definition lib_pitch_renamed :: "(transform, transform list) audiomentations" where
  "lib_pitch_renamed =
     lib_gain_db \<lparr> PitchShift := ctor ''PitchShift'' [''min_steps'', ''max_steps'', ''p''] \<rparr>"

text \<open>
  A stand-in for OpenCV: nearest-neighbour resizing and a three-step palette.  It fixes
  the shapes \<open>cv2.resize\<close> produces, which is what the statements about shapes use.
\<close>

definition nearest :: "'a matrix \<Rightarrow> nat \<times> nat \<Rightarrow> exc + 'a matrix" where
  "nearest m dsize =
     (case dsize of
        (width, height) \<Rightarrow>
          if concat m = [] \<or> width = 0 \<or> height = 0 then Inl cv2_error
          else Inr (map (\<lambda>i. map (\<lambda>j. m ! (i * nrows m div height) ! (j * ncols m div width))
                                 [0..<width]) [0..<height]))"

definition cv_nearest :: cv2 where
  "cv_nearest =
     \<lparr> resize_f64 = nearest,
       resize_u8 = nearest,
       COLORMAP_JET = (\<lambda>v. if v < 64 then (128, 0, 0) else if v < 192 then (0, 255, 0)
                            else (0, 0, 255)) \<rparr>"

text \<open>A state in which the grid is the second array and the generator has advanced.\<close>

definition later_world :: world where
  "later_world =
     \<lparr> arrays = [replicate 10 (replicate 20 0), grid], draws = (\<lambda>_. 3), drawn = 5 \<rparr>"

text \<open>
  What \<open>cv2.resize\<close> promises about shapes: on a source with at least one cell and a
  \<open>dsize\<close> with positive sides it returns an array of \<open>height\<close> rows, each of \<open>width\<close>
  cells.
\<close>

definition sized :: "'a matrix \<Rightarrow> nat \<Rightarrow> nat \<Rightarrow> bool" where
  "sized m height width = (length m = height \<and> list_all (\<lambda>r. length r = width) m)"

definition resize_contract :: "('a matrix \<Rightarrow> nat \<times> nat \<Rightarrow> exc + 'b matrix) \<Rightarrow> bool" where
  "resize_contract f =
     (\<forall>m width height. concat m \<noteq> [] \<and> 0 < width \<and> 0 < height \<longrightarrow>
        (\<exists>r. f m (width, height) = Inr r \<and> sized r height width))"

text \<open>A state whose one array has 224 rows and 200 columns, all cells zero.\<close>

definition tall_world :: world where
  "tall_world = \<lparr> arrays = [replicate 224 (replicate 200 0)], draws = grid_draws, drawn = 0 \<rparr>"

section \<open>Lists, slices and active indices\<close>

lemma drop_take_nth: "b \<le> length y \<Longrightarrow> drop a (take b y) = map ((!) y) [a..<b]"
  by (rule nth_equalityI) auto

lemma py_slice_nth:
  "b \<le> int (length y) \<Longrightarrow> py_slice y a b = map ((!) y) [nat a..<nat b]"
  unfolding py_slice_def by (rule drop_take_nth) linarith

lemma np_where_gt_set: "set (np_where_gt xs thr) = {i. i < length xs \<and> xs ! i > thr}"
  by (auto simp: np_where_gt_def)

lemma np_where_gt_sorted: "sorted (np_where_gt xs thr)"
  by (simp add: np_where_gt_def sorted_wrt_filter)

lemma hd_sorted_least: "sorted xs \<Longrightarrow> x \<in> set xs \<Longrightarrow> hd xs \<le> x"
  by (cases xs) auto

lemma last_sorted_greatest: "sorted xs \<Longrightarrow> x \<in> set xs \<Longrightarrow> x \<le> last xs"
  by (induction xs) (auto split: if_splits)

lemma active_first_last:
  assumes "np_where_gt energy thr \<noteq> []"
  defines "first \<equiv> hd (np_where_gt energy thr)" and "lst \<equiv> last (np_where_gt energy thr)"
  shows "first \<le> lst" "lst < length energy" "energy ! first > thr" "energy ! lst > thr"
    "\<And>i. i < first \<Longrightarrow> \<not> energy ! i > thr"
    "\<And>i. lst < i \<Longrightarrow> i < length energy \<Longrightarrow> \<not> energy ! i > thr"
proof -
  let ?A = "np_where_gt energy thr"
  have f: "first \<in> set ?A" and l: "lst \<in> set ?A"
    using assms by simp_all
  show "first \<le> lst" using l np_where_gt_sorted hd_sorted_least first_def by blast
  show "lst < length energy" "energy ! first > thr" "energy ! lst > thr"
    using f l by (simp_all add: np_where_gt_set)
  show  "\<not> energy ! i > thr" if "i < first" for i
  proof
    assume "energy ! i > thr"
    moreover have "i < length energy"
      using that f \<open>first \<le> lst\<close> \<open>lst < length energy\<close> by simp
    ultimately have "i \<in> set ?A" by (simp add: np_where_gt_set)
    then have "first \<le> i"
      unfolding first_def using np_where_gt_sorted hd_sorted_least by blast
    with that show False by simp
  qed
  show "\<not> energy ! i > thr" if "lst < i" "i < length energy" for i
  proof
    assume "energy ! i > thr"
    with that have "i \<in> set ?A" by (simp add: np_where_gt_set)
    then have "i \<le> lst"
      unfolding lst_def using np_where_gt_sorted last_sorted_greatest by blast
    with that show False by simp
  qed
qed

section \<open>The loader\<close>

lemma tone_frames:
  "np_where_gt [0, 0, 0, 1/100, 1/2, 1/4, 1/2, 1/100, 0, 0, 0] (3/200) = [4, 5, 6]"
  by (simp add: np_where_gt_def eval_nat_numeral)

lemma tone_slice: "py_slice tone_clip 1024 4608 = replicate 2976 (1/2) @ replicate 608 0"
  by (simp add: py_slice_def tone_clip_def)

lemma tone_normalize:
  "peak_normalize (replicate 2976 (1/2) @ replicate 608 0) =
     Inr (replicate 2976 1 @ replicate 608 0)"
proof -
  have "Max (set (map abs (replicate 2976 (1/2) @ replicate 608 (0::real)))) = 1/2"
    by simp
  then show ?thesis
    unfolding peak_normalize_def Let_def by simp
qed

lemma tone_load:
  "load_and_preprocess_audio lib_tone ''tone.wav'' =
     (Inr (Some (replicate 2976 1 @ replicate 608 0)), [])"
proof -
  have mx: "np_max [0, 0, 0, 1/100, 1/2, 1/4, 1/2, 1/100, 0, 0, (0::real)] = Inr (1/2)"
    by (simp add: np_max_def)
  have len: "int (length tone_clip) = 5120" by (simp add: tone_clip_def)
  show ?thesis
    unfolding load_and_preprocess_audio_def Let_def
    by (simp add: lib_tone_def mx tone_frames len tone_slice tone_normalize)
qed

text \<open>
  What the loader does once the read, the trim and the energy have returned: it hands
  one slice of the trimmed clip to \<open>librosa.util.normalize\<close> and passes on what that
  call gives, a waveform or an exception.
\<close>

lemma load_after_read:
  assumes "librosa_load L p = Inr y0" "effects_trim L y0 = Inr y"
    "feature_rms L y = Inr energy" "energy \<noteq> []"
  shows "load_and_preprocess_audio L p =
     (case util_normalize L
        (let A = np_where_gt energy (0.03 * Max (set energy))
         in if A \<noteq> [] then
              py_slice y (max 0 (int (hd A) * 512 - 1024))
                (min (int (length y)) ((int (last A) + 1) * 512 + 1024))
            else y) of
        Inl e \<Rightarrow> Inl e
      | Inr yn \<Rightarrow> Inr (Some yn), [])"
  using assms
  by (simp add: load_and_preprocess_audio_def Let_def np_max_def split: sum.splits)




text \<open>
  C3.  Frame \<open>k\<close> of the energy envelope is taken to start at sample \<open>512 k\<close> and to end
  at sample \<open>512 (k + 1)\<close>, which is how the source converts frames to samples.  If some
  frame is active, there are a first and a last active frame, and the loader hands to the
  final normalisation exactly the samples from \<open>max 0 (512 first - 1024)\<close> up to (not
  including) \<open>min (length y) (512 (last + 1) + 1024)\<close> of the silence-trimmed clip \<open>y\<close>,
  and returns what the normalisation gives.
\<close>

theorem active_region_crop:
  assumes ld: "librosa_load L p = Inr y0"
    and y: "effects_trim L y0 = Inr y"
    and en: "feature_rms L y = Inr energy"
    and act: "\<exists>i. active_frame energy i"
  shows "\<exists>first last.
           first \<le> last \<and> active_frame energy first \<and> active_frame energy last \<and>
           (\<forall>i. active_frame energy i \<longrightarrow> first \<le> i \<and> i \<le> last) \<and>
           load_and_preprocess_audio L p =
             (case util_normalize L
                (map ((!) y)
                  [nat (max 0 (int first * 512 - 1024)) ..<
                   nat (min (int (length y)) ((int last + 1) * 512 + 1024))]) of
                Inl e \<Rightarrow> Inl e
              | Inr yn \<Rightarrow> Inr (Some yn), [])"
proof -
  let ?thr = "0.03 * Max (set energy)"
  let ?A = "np_where_gt energy ?thr"
  from act obtain i where i: "i < length energy" "energy ! i > ?thr"
    by (auto simp: active_frame_def)
  then have ne: "energy \<noteq> []" by auto
  from i have "i \<in> set ?A" by (simp add: np_where_gt_set)
  then have A: "?A \<noteq> []" by auto
  note fl = active_first_last[OF A]
  have res: "load_and_preprocess_audio L p =
      (case util_normalize L (py_slice y (max 0 (int (hd ?A) * 512 - 1024))
         (min (int (length y)) ((int (last ?A) + 1) * 512 + 1024))) of
         Inl e \<Rightarrow> Inl e
       | Inr yn \<Rightarrow> Inr (Some yn), [])"
    using load_after_read[OF ld y en ne] A by (simp add: Let_def)
  have 1: "active_frame energy (hd ?A)" "active_frame energy (last ?A)"
    using fl(1-4) by (simp_all add: active_frame_def)
  have 2: "hd ?A \<le> j \<and> j \<le> last ?A" if "active_frame energy j" for j
  proof -
    from that have j: "j < length energy" "energy ! j > ?thr"
      by (simp_all add: active_frame_def)
    have "\<not> j < hd ?A" using fl(5)[of j] j by blast
    moreover have "\<not> last ?A < j" using fl(6)[of j] j by blast
    ultimately show ?thesis by simp
  qed
  show ?thesis
    apply (rule exI[of _ "hd ?A"], rule exI[of _ "last ?A"])
    using fl(1) 1 2 res by (simp add: py_slice_nth)
qed

theorem active_region_crop_witness:
  "librosa_load lib_tone ''tone.wav'' = Inr tone_clip \<and>
   effects_trim lib_tone tone_clip = Inr tone_clip \<and>
   feature_rms lib_tone tone_clip = Inr [0, 0, 0, 1/100, 1/2, 1/4, 1/2, 1/100, 0, 0, 0] \<and>
   active_frame [0, 0, 0, 1/100, 1/2, 1/4, 1/2, 1/100, 0, 0, 0] 4 \<and>
   active_frame [0, 0, 0, 1/100, 1/2, 1/4, 1/2, 1/100, 0, 0, 0] 6 \<and>
   (\<exists>first last.
      first \<le> last \<and>
      active_frame [0, 0, 0, 1/100, 1/2, 1/4, 1/2, 1/100, 0, 0, 0] first \<and>
      active_frame [0, 0, 0, 1/100, 1/2, 1/4, 1/2, 1/100, 0, 0, 0] last \<and>
      load_and_preprocess_audio lib_tone ''tone.wav'' =
        (case util_normalize lib_tone
           (map ((!) tone_clip)
             [nat (max 0 (int first * 512 - 1024)) ..<
              nat (min (int (length tone_clip)) ((int last + 1) * 512 + 1024))]) of
           Inl e \<Rightarrow> Inl e
         | Inr yn \<Rightarrow> Inr (Some yn), [])) \<and>
   load_and_preprocess_audio lib_tone ''tone.wav'' =
     (Inr (Some (replicate 2976 1 @ replicate 608 0)), [])"
proof -
  let ?en = "[0, 0, 0, 1/100, 1/2, 1/4, 1/2, 1/100, 0, 0, 0::real]"
  have 1: "librosa_load lib_tone ''tone.wav'' = Inr tone_clip" by (simp add: lib_tone_def)
  have 2: "effects_trim lib_tone tone_clip = Inr tone_clip" by (simp add: lib_tone_def)
  have 3: "feature_rms lib_tone tone_clip = Inr ?en" by (simp add: lib_tone_def)
  have 4: "active_frame ?en 4" "active_frame ?en 6"
    by (simp_all add: active_frame_def)
  then have 5: "\<exists>i. active_frame ?en i" by blast
  from active_region_crop [OF 1 2 3 5] 1 2 3 4 tone_load show ?thesis by blast
qed

section \<open>The trailing crop\<close>

lemma ncols_Cons: "ncols (r # rs) = length r"
  by (simp add: ncols_def)

lemma ncols_map_map: "ncols (map (map f) m) = ncols m"
  by (cases m) (simp_all add: ncols_def)

lemma spec_energy_eq:
  "map (\<lambda>j. sum_list (map (\<lambda>r. 10 powr (r ! j / 10)) m) + 1 / 10 ^ 10) [0..<n]
     = map (col_energy m) [0..<n]"
  by (simp add: col_energy_def nrows_def sum_list_sum_nth atLeast0LessThan)

lemma col_energy_pos: "0 < col_energy m j"
proof -
  have "0 \<le> (\<Sum>i<nrows m. 10 powr (m ! i ! j / 10))"
    by (rule sum_nonneg) simp
  then show ?thesis by (simp add: col_energy_def add_nonneg_pos)
qed

lemma end_col_nat:
  "l < n \<Longrightarrow> nat (min (int l + 5) (int n - 1) + 1) = min (l + 5) (n - 1) + 1"
  by linarith

text \<open>
  The column of largest energy exceeds one percent of itself, because every column
  energy is at least \<open>eps\<close>: a matrix with a column always has an active column, and the
  source's \<open>else\<close> branch (no active column) is never taken on it.
\<close>

lemma crop_trailing_last:
  assumes w: "0 < ncols m"
  shows "\<exists>last_col.
           col_active m last_col \<and> (\<forall>j. col_active m j \<longrightarrow> j \<le> last_col) \<and>
           crop_trailing m = Inr (map (take (min (last_col + 5) (ncols m - 1) + 1)) m)"
proof -
  let ?E = "map (col_energy m) [0..<ncols m]"
  let ?mx = "Max (set ?E)"
  let ?A = "np_where_gt ?E (0.01 * ?mx)"
  have ne: "?E \<noteq> []" using w by simp
  have setE: "set ?E = col_energy m ` {..<ncols m}" by (simp add: atLeast0LessThan)
  have "?mx \<in> set ?E" using ne by (intro Max_in) simp_all
  then obtain j where j: "j < ncols m" "col_energy m j = ?mx" by auto
  have "0 < ?mx" using j col_energy_pos[of m j] by simp
  then have "?mx > 0.01 * ?mx" by simp
  with j have "j \<in> set ?A" by (simp add: np_where_gt_set)
  then have A: "?A \<noteq> []" by auto
  note fl = active_first_last[OF A]
  have act: "col_active m k \<longleftrightarrow> k \<in> set ?A" for k
    by (auto simp: col_active_def np_where_gt_set setE[symmetric])
  have 1: "col_active m (last ?A)" using A by (simp add: act)
  have 2: "k \<le> last ?A" if "col_active m k" for k
    using that last_sorted_greatest[OF np_where_gt_sorted] by (simp only: act)
  have "last ?A < ncols m" using fl(2) by simp
  then have n: "nat (min (int (last ?A) + 5) (int (ncols m) - 1) + 1)
      = min (last ?A + 5) (ncols m - 1) + 1"
    by (rule end_col_nat)
  have res: "crop_trailing m = Inr (map (take (min (last ?A + 5) (ncols m - 1) + 1)) m)"
    unfolding crop_trailing_def Let_def spec_energy_eq np_max_def
    using ne A n by simp
  show ?thesis
    using 1 2 res by blast
qed

lemma crop_decay:
  "crop_trailing decay_db =
     Inr [[0, -10, -30, -30, -30, -30, -30], [-10, -20, -30, -30, -30, -30, -30]]"
  by (simp add: crop_trailing_def decay_db_def ncols_def np_max_def np_where_gt_def Let_def
      powr_neg_numeral)

lemma act_decay: "col_active decay_db 1"
  by (simp add: col_active_def col_energy_def decay_db_def ncols_def nrows_def
      eval_nat_numeral lessThan_Suc powr_neg_numeral)

text \<open>
  C4.  On a decibel matrix with at least one time frame, the crop finds the last frame
  whose linear energy (the sum over the bands of \<open>10 powr (dB / 10)\<close>, plus \<open>eps\<close>)
  exceeds one percent of the largest frame energy, and keeps the frames up to that one
  plus five more, clamped to the last frame of the matrix.  Such a frame always exists,
  so the case without an active frame does not arise.
\<close>

theorem trailing_crop:
  assumes "0 < ncols m"
  shows "\<exists>last_col.
           col_active m last_col \<and> (\<forall>j. col_active m j \<longrightarrow> j \<le> last_col) \<and>
           crop_trailing m = Inr (map (take (min (last_col + 5) (ncols m - 1) + 1)) m)"
  using assms by (rule crop_trailing_last)

theorem trailing_crop_witness:
  "0 < ncols decay_db \<and> col_active decay_db 1 \<and>
   crop_trailing decay_db =
     Inr [[0, -10, -30, -30, -30, -30, -30], [-10, -20, -30, -30, -30, -30, -30]]"
proof -
  have "0 < ncols decay_db" by (simp add: decay_db_def ncols_def)
  from trailing_crop [OF this] act_decay crop_decay this show ?thesis by blast
qed

section \<open>Decibels relative to the peak\<close>

lemma to_db_ref: "to_db r r = 0"
  by (simp add: to_db_def)

lemma to_db_le: "s \<le> r \<Longrightarrow> to_db r s \<le> 0"
proof -
  assume "s \<le> r"
  then have "max (1 / 10 ^ 10) s \<le> max (1 / 10 ^ 10) r" by (simp add: max.coboundedI2)
  moreover have "0 < max (1 / 10 ^ 10) s" by (simp add: less_max_iff_disj)
  ultimately have "log 10 (max (1 / 10 ^ 10) s) \<le> log 10 (max (1 / 10 ^ 10) r)"
    by (subst log_le_cancel_iff) (auto simp: less_max_iff_disj)
  then show ?thesis by (simp add: to_db_def)
qed

lemma Max_zero:
  assumes "xs \<noteq> []" "\<And>x. x \<in> set xs \<Longrightarrow> f x \<le> (0::real)" "\<exists>x\<in>set xs. f x = 0"
  shows "Max (set (map f xs)) = 0"
proof (rule Max_eqI)
  show "finite (set (map f xs))" by simp
  show "\<And>y. y \<in> set (map f xs) \<Longrightarrow> y \<le> 0" using assms(2) by auto
  show "0 \<in> set (map f xs)" using assms(3) by force
qed

lemma power_to_db_eq:
  assumes "concat S \<noteq> []"
  shows "power_to_db S = Inr (map (map (\<lambda>s. max (to_db (Max (set (concat S))) s) (- 80))) S)"
proof -
  let ?ref = "Max (set (concat S))"
  have in_S: "?ref \<in> set (concat S)" using assms by (intro Max_in) simp_all
  have mx: "Max (set (map (to_db ?ref) (concat S))) = 0"
  proof (rule Max_zero)
    show "concat S \<noteq> []" by fact
    show "to_db ?ref x \<le> 0" if "x \<in> set (concat S)" for x
      using that by (intro to_db_le Max_ge) simp_all
    show "\<exists>x\<in>set (concat S). to_db ?ref x = 0" using in_S to_db_ref by blast
  qed
  have c: "concat (map (map (to_db ?ref)) S) = map (to_db ?ref) (concat S)"
    by (simp add: map_concat)
  have "power_to_db S =
      (case np_max (concat (map (map (to_db ?ref)) S)) of
         Inl e \<Rightarrow> Inl e
       | Inr mx \<Rightarrow> Inr (map (map (\<lambda>v. max v (mx - 80))) (map (map (to_db ?ref)) S)))"
    using assms by (simp add: power_to_db_def np_max_def Let_def to_db_def[abs_def])
  also have "\<dots> = Inr (map (map (\<lambda>v. max v (0 - 80))) (map (map (to_db ?ref)) S))"
    unfolding c np_max_def using assms mx by simp
  finally show ?thesis by (simp add: comp_def)
qed

lemma power_to_db_max:
  assumes "concat S \<noteq> []" and "power_to_db S = Inr db"
  shows "Max (set (concat db)) = 0" and "\<And>v. v \<in> set (concat db) \<Longrightarrow> v \<le> 0"
proof -
  let ?ref = "Max (set (concat S))"
  let ?h = "\<lambda>s. max (to_db ?ref s) (- 80)"
  have db: "concat db = map ?h (concat S)"
    using assms power_to_db_eq[OF assms(1)] by (simp add: map_concat)
  have in_S: "?ref \<in> set (concat S)" using assms by (intro Max_in) simp_all
  have le: "?h x \<le> 0" if "x \<in> set (concat S)" for x
    using that to_db_le[of x ?ref] by simp
  show "Max (set (concat db))= 0"
    unfolding db
  proof (rule Max_zero)
    show "concat S \<noteq> []" by fact
    show "\<And>x. x \<in> set (concat S) \<Longrightarrow> ?h x \<le> 0" by (rule le)
    have "?h ?ref = 0" by (simp add: to_db_ref)
    with in_S show "\<exists>x\<in>set (concat S). ?h x = 0" by blast
  qed
  show "v \<le> 0" if "v \<in> set (concat db)" for v
  proof -
    from that have "v \<in> ?h ` set (concat S)" unfolding db by (simp only: set_map)
    then obtain x where x: "x \<in> set (concat S)" and v: "v = ?h x" by (rule imageE)
    from x have "?h x \<le> 0" by (rule le)
    then show ?thesis unfolding v .
  qed
qed

lemma concat_take_nonempty: "0 < ncols m \<Longrightarrow> 0 < k \<Longrightarrow> concat (map (take k) m) \<noteq> []"
  by (cases m) (auto simp: ncols_def)

lemma set_concat_take: "v \<in> set (concat (map (take k) m)) \<Longrightarrow> v \<in> set (concat m)"
  by (auto dest: in_set_takeD)

lemma log10_amin: "log 10 (1 / 10000000000) = - 10"
proof -
  have e: "(1::real) / 10000000000 = 10 powr (- 10)" by (simp add: powr_neg_numeral)
  show ?thesis unfolding e by simp
qed

lemma log10_frac: "log 10 (1/10) = -1" "log 10 (1/100) = -2" "log 10 (1/1000) = -3"
proof -
  have "log 10 ((10::real) ^ 2) = 2" "log 10 ((10::real) ^ 3) = 3"
    by (simp_all only: log_pow_cancel)
  then have p: "log 10 (100::real) = 2" "log 10 (1000::real) = 3" by simp_all
  show "log 10 (1/10) = -1" "log 10 (1/100) = -2" "log 10 (1/1000) = -3"
    by (simp_all add: log_divide p)
qed

lemma db99: "- 80 \<le> 10 * log 10 (99 / 100)" "10 * log 10 (99/100) < 0"
proof -
  have "(10::real) powr (-8) \<le> 99 / 100" by (simp add: powr_neg_numeral)
  then have "log 10 (10 powr (- 8)) \<le> log 10 (99/100)"
    by (subst log_le_cancel_iff) simp_all
  then show "- 80 \<le> 10 * log 10 (99 / 100)" by simp
  have "log 10 (99/100) < log 10 1" by (subst log_less_cancel_iff) simp_all
  then show "10 * log 10 (99/100) < 0" by simp
qed

lemma decay_to_db: "power_to_db decay_power = Inr decay_db"
proof -
  have mx: "Max (set (concat decay_power)) = 1"
    by (simp add: decay_power_def)
  have ne: "concat decay_power \<noteq> []" by (simp add: decay_power_def)
  have t: "to_db 1 1 = 0" "to_db 1 (1/10) = -10" "to_db 1 (1/100) = -20"
    "to_db 1 (1/1000) = -30"
    by (simp_all add: to_db_def log10_frac max_def)
  show ?thesis
    unfolding power_to_db_eq[OF ne] mx
    by (simp add: decay_power_def decay_db_def t)
qed

lemma click_db:
  "power_to_db click_then_tone =
     Inr ([10 * log 10 (99/100), -80, -80, -80, -80, -80, 0] #
          replicate 127 [10 * log 10 (99/100), -80, -80, -80, -80, -80, -80])"
proof -
  have mx: "Max (set (concat click_then_tone)) = 1"
    by (simp add: click_then_tone_def)
  have ne: "concat click_then_tone \<noteq> []" by (simp add: click_then_tone_def)
  have t: "to_db 1 0 = -100" "to_db 1 1 = 0" "to_db 1 (99/100) = 10 * log 10 (99/100)"
    by (simp_all add: to_db_def log10_amin max_def)
  show ?thesis
    unfolding power_to_db_eq[OF ne] mx
    using db99 by (simp add: click_then_tone_def t max_def)
qed

lemma col_sum_replicate:
  "sum_list (map f (x # replicate n y)) = f x + real n * f y"
  by (simp add: sum_list_replicate)

lemma click_energy:
  "map (\<lambda>j. sum_list (map (\<lambda>r. 10 powr (r ! j / 10))
          ([10 * log 10 (99/100), -80, -80, -80, -80, -80, 0] #
            replicate 127 [10 * log 10 (99/100), -80, -80, -80, -80, -80, -80]))
        + 1 / 10 ^ 10) [0..<7]
   = [1267200000001 / 10000000000, 12801 / 10000000000, 12801 / 10000000000,
      12801 / 10000000000, 12801 / 10000000000, 12801 / 10000000000,
      10000012701 / 10000000000]"
  unfolding col_sum_replicate
  by (simp add: powr_neg_numeral eval_nat_numeral)

lemma click_active:
  "np_where_gt
     [1267200000001 / 10000000000, 12801 / 10000000000, 12801 / 10000000000,
      12801 / 10000000000, 12801 / 10000000000, 12801 / 10000000000,
      10000012701 / 10000000000]
     (0.01 * (1267200000001 / 10000000000)) = [0]"
  by (simp add: np_where_gt_def eval_nat_numeral)

lemma click_crop:
  "crop_trailing ([10 * log 10 (99/100), -80, -80, -80, -80, -80, 0] #
      replicate 127 [10 * log 10 (99/100), -80, -80, -80, -80, -80, -80])
   = Inr (replicate 128 [10 * log 10 (99/100), -80, -80, -80, -80, -80])"
proof -
  have n: "ncols ([10 * log 10 (99/100), -80, -80, -80, -80, -80, 0] #
      replicate 127 [10 * log 10 (99/100), -80, -80, -80, -80, -80, -80]) = 7"
    by (simp add: ncols_Cons)
  have mx: "np_max
      [1267200000001 / 10000000000, 12801 / 10000000000, 12801 / 10000000000,
       12801 / 10000000000, 12801 / 10000000000, 12801 / 10000000000,
       10000012701 / (10000000000::real)] = Inr (1267200000001 / 10000000000)"
    by (simp add: np_max_def)
  have r: "replicate 128 x = x # replicate 127 x" for x :: "real list"
    by (simp add: eval_nat_numeral)
  show ?thesis
    unfolding crop_trailing_def Let_def n click_energy mx sum.case click_active r
    by simp
qed

text \<open>
  C1, as amended.  The decibel matrix that \<open>power_to_db\<close> builds from a mel power matrix
  with at least one frame has maximum exactly \<open>0\<close>; \<open>create_mel_spectrogram\<close> returns
  its columns up to the last active one plus five (clamped to the width); every returned
  value is at most \<open>0\<close> dB; and the returned maximum is exactly \<open>0\<close> dB if and only if a
  \<open>0\<close> dB cell lies in a column that the crop keeps.
\<close>

theorem mel_spectrogram_peak:
  assumes S: "S = feature_melspectrogram L audio" and w: "0 < ncols S"
  shows "\<exists>db last_col k.
            power_to_db S = Inr db \<and> Max (set (concat db)) = 0 \<and>
            col_active db last_col \<and> (\<forall>j. col_active db j \<longrightarrow> j \<le> last_col) \<and>
            k = min (last_col + 5) (ncols db - 1) + 1 \<and>
            create_mel_spectrogram L audio = Inr (map (take k) db) \<and>
            (\<forall>v\<in>set (concat (map (take k) db)). v \<le> 0) \<and>
            (Max (set (concat (map (take k) db))) = 0 \<longleftrightarrow>
               (\<exists>row\<in>set db. 0 \<in> set (take k row)))"
proof -
  have ne: "concat S \<noteq> []" using w by (cases S) (auto simp: ncols_def)
  define db where "db = map (map (\<lambda>s. max (to_db (Max (set (concat S))) s) (- 80))) S"
  have p: "power_to_db S = Inr db" unfolding db_def by (rule power_to_db_eq[OF ne])
  have wdb: "0 < ncols db" using w by (simp add: db_def ncols_map_map)
  from crop_trailing_last[OF wdb] obtain l where
    l: "col_active db l" "\<forall>j. col_active db j \<longrightarrow> j \<le> l" and
    c: "crop_trailing db = Inr (map (take (min (l + 5) (ncols db - 1) + 1)) db)" by blast
  define k where "k = min (l + 5) (ncols db - 1) + 1"
  let ?r = "map (take k) db"
  have k: "0 < k" by (simp add: k_def)
  have r: "create_mel_spectrogram L audio = Inr ?r"
    using p c by (simp add: create_mel_spectrogram_def S[symmetric] k_def)
  have le: "v \<le> 0" if "v \<in> set (concat ?r)" for v
    using set_concat_take[OF that] power_to_db_max(2)[OF ne p] by blast
  have rne: "concat ?r \<noteq> []" using wdb k by (rule concat_take_nonempty)
  have iff: "Max (set (concat ?r)) = 0 \<longleftrightarrow> (\<exists>row\<in>set db. 0 \<in> set (take k row))"
  proof
    assume "Max (set (concat ?r)) = 0"
    moreover have "Max (set (concat ?r)) \<in> set (concat ?r)"
      using rne by (intro Max_in) simp_all
    ultimately have "0 \<in> set (concat ?r)" by simp
    then show "\<exists>row\<in>set db. 0 \<in> set (take k row)" by auto
  next
    assume "\<exists>row\<in>set db. 0 \<in> set (take k row)"
    then have "0 \<in> set (concat ?r)" by auto
    then show "Max (set (concat ?r)) = 0" using le by (intro Max_eqI) simp_all
  qed
  show ?thesis
    using p power_to_db_max(1)[OF ne p] l k_def r le iff by blast
qed

theorem mel_spectrogram_peak_witness:
  "decay_power = feature_melspectrogram lib_tone tone_clip \<and> 0 < ncols decay_power \<and>
   power_to_db decay_power = Inr decay_db \<and>
   create_mel_spectrogram lib_tone tone_clip = Inr (map (take 7) decay_db) \<and>
   Max (set (concat (map (take 7) decay_db))) = 0"
proof -
  have 1: "decay_power = feature_melspectrogram lib_tone tone_clip"
    by (simp add: lib_tone_def)
  have 2: "0 < ncols decay_power" by (simp add: decay_power_def ncols_def)
  have 3: "create_mel_spectrogram lib_tone tone_clip = Inr (map (take 7) decay_db)"
    by (simp add: create_mel_spectrogram_def 1[symmetric] decay_to_db crop_decay)
      (simp add: decay_db_def)
  have 4: "Max (set (concat (map (take 7) decay_db))) = 0" by (simp add: decay_db_def)
  from mel_spectrogram_peak [OF 1 2] 1 2 3 4 decay_to_db show ?thesis by blast
qed

text \<open>
  C1 as stated fails: on the click followed by a faint tone the crop keeps frames 0 to 5
  and drops frame 6, which holds the only \<open>0\<close> dB cell; the largest returned value is
  \<open>10 log10 (99/100)\<close>, below \<open>0\<close>.
\<close>

theorem mel_spectrogram_max_counterexample:
  "create_mel_spectrogram lib_click [1, 0, -1]
     = Inr (replicate 128 [10 * log 10 (99/100), -80, -80, -80, -80, -80]) \<and>
   Max (set (concat (replicate 128 [10 * log 10 (99/100), -80, -80, -80, -80, -80])))
     = 10 * log 10 (99/100) \<and>
   10 * log 10 (99/100) < (0::real)"
proof -
  have "create_mel_spectrogram lib_click [1, 0, -1]
     = Inr (replicate 128 [10 * log 10 (99/100), -80, -80, -80, -80, -80])"
    by (simp add: create_mel_spectrogram_def lib_click_def click_db click_crop)
  moreover have
    "Max (set (concat (replicate 128 [10 * log 10 (99/100), -80, -80, -80, -80, -80])))
       = 10 * log 10 (99/100)"
    using db99 by (simp add: max_def)
  ultimately show ?thesis using db99 by simp
qed

section \<open>Masks on a matrix\<close>

lemma length_assign_rows: "length (assign_rows lo hi v m) = length m"
  by (simp add: assign_rows_def)

lemma nth_assign_rows:
  "i < length m \<Longrightarrow>
   assign_rows lo hi v m ! i = (if lo \<le> i \<and> i < hi then map (\<lambda>_. v) (m ! i) else m ! i)"
  by (simp add: assign_rows_def)

lemma lengths_assign_rows: "map length (assign_rows lo hi v m) = map length m"
  by (rule nth_equalityI) (simp_all add: length_assign_rows nth_assign_rows)

lemma cell_assign_rows:
  "i < length m \<Longrightarrow> j < length (m ! i) \<Longrightarrow>
   assign_rows p (p + n) v m ! i ! j = (if in_mask p n i then v else m ! i ! j)"
  by (simp add: nth_assign_rows in_mask_def)

lemma length_assign_cols: "length (assign_cols lo hi v m) = length m"
  by (simp add: assign_cols_def)

lemma lengths_assign_cols: "map length (assign_cols lo hi v m) = map length m"
  by (simp add: assign_cols_def comp_def)

lemma cell_assign_cols:
  "i < length m \<Longrightarrow> j < length (m ! i) \<Longrightarrow>
   assign_cols p (p + n) v m ! i ! j = (if in_mask p n j then v else m ! i ! j)"
  by (simp add: assign_cols_def in_mask_def)

lemma lengths_nth: "map length m' = map length m \<Longrightarrow> i < length m \<Longrightarrow> length (m' ! i) = length (m ! i)"
  by (metis length_map nth_map)

lemma lengths_length: "map length m' = map length m \<Longrightarrow> length m' = length m"
  by (metis length_map)

lemma lengths_nrows: "map length m' = map length m \<Longrightarrow> nrows m' = nrows m"
  unfolding nrows_def by (rule lengths_length)

lemma lengths_ncols: "map length m' = map length m \<Longrightarrow> ncols m' = ncols m"
  by (cases m; cases m') (simp_all add: ncols_def)

lemma in_concat_iff:
  "x \<in> set (concat m) \<longleftrightarrow> (\<exists>i j. i < length m \<and> j < length (m ! i) \<and> x = m ! i ! j)"
proof
  assume "x \<in> set (concat m)"
  then obtain r where r: "r \<in> set m" "x \<in> set r" by auto
  from r(1) obtain i where i: "i < length m" "r = m ! i" by (metis in_set_conv_nth)
  from r(2) obtain j where j: "j < length r" "x = r ! j" by (metis in_set_conv_nth)
  from i j show "\<exists>i j. i < length m \<and> j < length (m ! i) \<and> x = m ! i ! j" by blast
next
  assume "\<exists>i j. i < length m \<and> j < length (m ! i) \<and> x = m ! i ! j"
  then obtain i j where ij: "i < length m" "j < length (m ! i)" "x = m ! i ! j" by blast
  then have "m ! i \<in> set m" "x \<in> set (m ! i)" by simp_all
  then show "x \<in> set (concat m)" by auto
qed

lemma masked_fromI:
  assumes "map length m' = map length m"
    and "\<And>i j. i < length m \<Longrightarrow> j < length (m ! i) \<Longrightarrow>
           m' ! i ! j = m ! i ! j \<or> m' ! i ! j = Min (set (concat m))"
  shows "masked_from m m'"
  unfolding masked_from_def
  using assms by blast

lemma masked_from_cell:
  "masked_from m m' \<Longrightarrow> i < length m \<Longrightarrow> j < length (m ! i) \<Longrightarrow>
     m' ! i ! j = m ! i ! j \<or> m' ! i ! j = Min (set (concat m))"
  unfolding masked_from_def by blast

lemma masked_from_lengths: "masked_from m m' \<Longrightarrow> map length m' = map length m"
  by (simp add: masked_from_def)

lemma masked_from_refl: "masked_from m m"
  by (rule masked_fromI) simp_all

lemma masked_from_nonempty:
  assumes "masked_from m m'" "concat m \<noteq> []"
  shows "concat m' \<noteq> []"
proof -
  from assms(2) obtain x where "x \<in> set (concat m)" by (cases "concat m") auto
  then obtain i j where ij: "i < length m" "j < length (m ! i)" unfolding in_concat_iff by blast
  note L = masked_from_lengths[OF assms(1)]
  from ij have "i < length m'" "j < length (m' ! i)"
    using lengths_length[OF L] lengths_nth[OF L] by simp_all
  then have "m' ! i ! j \<in> set (concat m')" unfolding in_concat_iff by blast
  then show ?thesis by (cases "concat m'") simp_all
qed

lemma masked_from_Min:
  assumes mf: "masked_from m m'" and ne: "concat m \<noteq> []"
  shows "Min (set (concat m')) = Min (set (concat m))"
proof (rule Min_eqI)
  let ?v = "Min (set (concat m))"
  note L = masked_from_lengths[OF mf]
  show "finite (set (concat m'))" by simp
  have vin: "?v \<in> set (concat m)" using ne by (intro Min_in) simp_all
  show "?v \<le> y" if "y \<in> set (concat m')" for y
  proof -
    from that obtain i j where ij: "i < length m'" "j < length (m' ! i)" "y = m' ! i ! j"
      unfolding in_concat_iff by blast
    then have ij': "i < length m" "j < length (m ! i)"
      using lengths_length[OF L] lengths_nth[OF L, of i] by simp_all
    then have "m ! i ! j \<in> set (concat m)" unfolding in_concat_iff by blast
    then have "?v \<le> m ! i ! j" by (rule Min_le[OF finite_set])
    moreover have "y = m ! i ! j \<or> y = ?v"
      using masked_from_cell[OF mf ij'] unfolding ij(3) .
    ultimately show ?thesis by (elim disjE) simp_all
  qed
  from vin obtain i j where ij: "i < length m" "j < length (m ! i)" "?v = m ! i ! j"
    unfolding in_concat_iff by blast
  have "m' ! i ! j = ?v"
    using masked_from_cell[OF mf ij(1,2)] unfolding ij(3)[symmetric] by (elim disjE) simp_all
  moreover have "i < length m'" "j < length (m' ! i)"
    using ij lengths_length[OF L] lengths_nth[OF L, of i] by simp_all
  ultimately have "\<exists>i j. i < length m' \<and> j < length (m' ! i) \<and> ?v = m' ! i ! j"
    by (intro exI[of _ i] exI[of _ j]) simp
  then show "?v \<in> set (concat m')" unfolding in_concat_iff .
qed

lemma masked_from_trans:
  assumes "masked_from m m'" "masked_from m' m''"
  shows "masked_from m m''"
proof (rule masked_fromI)
  show L: "map length m'' = map length m"
    using masked_from_lengths[OF assms(1)] masked_from_lengths[OF assms(2)] by simp
  fix i j assume ij: "i < length m" "j < length (m ! i)"
  note L1 = masked_from_lengths[OF assms(1)]
  from ij have ij': "i < length m'" "j < length (m' ! i)"
    using lengths_length[OF L1] lengths_nth[OF L1, of i] by simp_all
  from ij have "m ! i ! j \<in> set (concat m)" unfolding in_concat_iff by blast
  then have ne: "concat m \<noteq> []" by (cases "concat m") simp_all
  from masked_from_cell[OF assms(2) ij'] masked_from_cell[OF assms(1) ij]
  show "m'' ! i ! j = m ! i ! j \<or> m'' ! i ! j = Min (set (concat m))"
    unfolding masked_from_Min[OF assms(1) ne] by (elim disjE) simp_all
qed

lemma concat_empty_lengths: "concat m = [] \<longleftrightarrow> (\<forall>n\<in>set (map length m). n = 0)"
  by (induction m) auto

lemma masked_from_np_min: "masked_from m m' \<Longrightarrow> np_min m' = np_min m"
proof (cases "concat m = []")
  case True
  assume "masked_from m m'"
  then have "map length m' = map length m" by (rule masked_from_lengths)
  with True have "concat m' = []" unfolding concat_empty_lengths by simp
  with True show ?thesis by (simp add: np_min_def)
next
  case False
  assume mf: "masked_from m m'"
  from masked_from_nonempty[OF mf False] masked_from_Min[OF mf False] False
  show ?thesis by (simp add: np_min_def del: set_concat)
qed

lemma masked_from_assign_rows: "masked_from m (assign_rows p (p + n) (Min (set (concat m))) m)"
  by (rule masked_fromI) (simp_all add: lengths_assign_rows cell_assign_rows)

lemma masked_from_assign_cols: "masked_from m (assign_cols p (p + n) (Min (set (concat m))) m)"
  by (rule masked_fromI) (simp_all add: lengths_assign_cols cell_assign_cols)

section \<open>The mask loops\<close>

lemma randint_ok:
  "0 < high \<Longrightarrow>
   np_random_randint 0 high w =
     (Inr (int (draws w (drawn w) mod nat high)), w\<lparr>drawn := drawn w + 1\<rparr>)"
  by (simp add: np_random_randint_def zmod_int)

lemma randint_fail: "high \<le> 0 \<Longrightarrow> np_random_randint 0 high w = (Inl ValueError, w)"
  by (simp add: np_random_randint_def)

lemma np_min_ok: "concat m \<noteq> [] \<Longrightarrow> np_min m = Inr (Min (set (concat m)))"
  by (simp add: np_min_def)

lemma np_min_fail: "concat m = [] \<Longrightarrow> np_min m = Inl ValueError"
  by (simp add: np_min_def)

text \<open>One round of the frequency loop, when it goes through and when it raises.\<close>

lemma freq_step_ok:
  assumes "0 < fp"
    and "f = draws w (drawn w) mod nat fp"
    and "f < nrows (arrays w ! a)"
    and "p = draws w (drawn w + 1) mod (nrows (arrays w ! a) - f)"
    and "concat (arrays w ! a) \<noteq> []"
  shows "freq_masks (Suc n) fp a w =
           freq_masks n fp a
             (w\<lparr>drawn := drawn w + 2,
                arrays := (arrays w)[a := assign_rows p (p + f)
                   (Min (set (concat (arrays w ! a)))) (arrays w ! a)]\<rparr>)"
proof -
  have h: "0 < int (nrows (arrays w ! a)) - int f" using assms(3) by simp
  have n: "nat (int (nrows (arrays w ! a)) - int f) = nrows (arrays w ! a) - f" by simp
  show ?thesis
    using assms(4,5)
    by (simp add: randint_ok[OF assms(1)] assms(2)[symmetric] randint_ok[OF h] n
        np_min_ok nat_add_distrib)
qed

lemma freq_step_fail:
  assumes "fp \<le> 0 \<or> \<not> draws w (drawn w) mod nat fp < nrows (arrays w ! a)
            \<or> concat (arrays w ! a) = []"
  shows "\<exists>w'. freq_masks (Suc n) fp a w = (Inl ValueError, w')"
proof (cases "0 < fp")
  case False
  then show ?thesis by (simp add: randint_fail)
next
  case fp: True
  show ?thesis
  proof (cases "draws w (drawn w) mod nat fp < nrows (arrays w ! a)")
    case False
    then have "int (nrows (arrays w ! a)) - int (draws w (drawn w) mod nat fp) \<le> 0" by simp
    then show ?thesis by (simp add: randint_ok[OF fp] randint_fail)
  next
    case True
    then have h: "0 < int (nrows (arrays w ! a)) - int (draws w (drawn w) mod nat fp)" by simp
    from assms fp True have "concat (arrays w ! a) = []" by simp
    then show ?thesis by (simp add: randint_ok[OF fp] randint_ok[OF h] np_min_fail)
  qed
qed

lemma time_step_ok:
  assumes "0 < tp"
    and "t = draws w (drawn w) mod nat tp"
    and "t < ncols (arrays w ! a)"
    and "q = draws w (drawn w + 1) mod (ncols (arrays w ! a) - t)"
    and "concat (arrays w ! a) \<noteq> []"
  shows "time_masks (Suc n) tp a w =
           time_masks n tp a
             (w\<lparr>drawn := drawn w + 2,
                arrays := (arrays w)[a := assign_cols q (q + t)
                   (Min (set (concat (arrays w ! a)))) (arrays w ! a)]\<rparr>)"
proof -
  have h: "0 < int (ncols (arrays w ! a)) - int t" using assms(3) by simp
  have n: "nat (int (ncols (arrays w ! a)) - int t) = ncols (arrays w ! a) - t" by simp
  show ?thesis
    using assms(4,5)
    by (simp add: randint_ok[OF assms(1)] assms(2)[symmetric] randint_ok[OF h] n
        np_min_ok nat_add_distrib)
qed

lemma time_step_fail:
  assumes "tp \<le> 0 \<or> \<not> draws w (drawn w) mod nat tp < ncols (arrays w ! a)
            \<or> concat (arrays w ! a) = []"
  shows "\<exists>w'. time_masks (Suc n) tp a w = (Inl ValueError, w')"
proof (cases "0 < tp")
  case False
  then show ?thesis by (simp add: randint_fail)
next
  case tp: True
  show ?thesis
  proof (cases "draws w (drawn w) mod nat tp < ncols (arrays w ! a)")
    case False
    then have "int (ncols (arrays w ! a)) - int (draws w (drawn w) mod nat tp) \<le> 0" by simp
    then show ?thesis by (simp add: randint_ok[OF tp] randint_fail)
  next
    case True
    then have h: "0 < int (ncols (arrays w ! a)) - int (draws w (drawn w) mod nat tp)" by simp
    from assms tp True have "concat (arrays w ! a) = []" by simp
    then show ?thesis by (simp add: randint_ok[OF tp] randint_ok[OF h] np_min_fail)
  qed
qed

lemma only_masked_refl: "only_masked a w w"
  by (simp add: only_masked_def masked_from_refl)

lemma only_masked_trans:
  assumes "only_masked a w w1" "only_masked a w1 w2"
  shows "only_masked a w w2"
  using assms masked_from_trans[of "arrays w ! a" "arrays w1 ! a" "arrays w2 ! a"]
  unfolding only_masked_def by simp

lemma only_masked_rows:
  assumes "a < length (arrays w)"
  shows "only_masked a w
     (w\<lparr>drawn := d, arrays := (arrays w)[a := assign_rows p (p + f)
           (Min (set (concat (arrays w ! a)))) (arrays w ! a)]\<rparr>)"
  using assms by (simp add: only_masked_def masked_from_assign_rows del: set_concat)

lemma only_masked_cols:
  assumes "a < length (arrays w)"
  shows "only_masked a w
     (w\<lparr>drawn := d, arrays := (arrays w)[a := assign_cols p (p + f)
           (Min (set (concat (arrays w ! a)))) (arrays w ! a)]\<rparr>)"
  using assms by (simp add: only_masked_def masked_from_assign_cols del: set_concat)

lemma only_masked_shape:
  assumes "only_masked a w w'"
  shows "map length (arrays w' ! a) = map length (arrays w ! a)"
    "nrows (arrays w' ! a) = nrows (arrays w ! a)"
    "ncols (arrays w' ! a) = ncols (arrays w ! a)"
proof -
  from assms show L: "map length (arrays w' ! a) = map length (arrays w ! a)"
    by (simp add: only_masked_def masked_from_lengths)
  show "nrows (arrays w' ! a) = nrows (arrays w ! a)" by (rule lengths_nrows[OF L])
  show "ncols (arrays w' ! a) = ncols (arrays w ! a)" by (rule lengths_ncols[OF L])
qed

lemma only_masked_nonempty:
  "only_masked a w w' \<Longrightarrow> concat (arrays w ! a) \<noteq> [] \<Longrightarrow> concat (arrays w' ! a) \<noteq> []"
  unfolding only_masked_def using masked_from_nonempty by blast

lemma freq_masks_result:
  "(\<exists>w'. freq_masks n fp a w = (Inl ValueError, w')) \<or> (\<exists>w'. freq_masks n fp a w = (Inr (), w'))"
proof (induction n arbitrary: w)
  case 0
  show ?case by simp
next
  case (Suc n)
  show ?case
  proof (cases "fp \<le> 0 \<or> \<not> draws w (drawn w) mod nat fp < nrows (arrays w ! a)
            \<or> concat (arrays w ! a) = []")
    case True
    from freq_step_fail[OF this] show ?thesis by blast
  next
    case False
    then have "freq_masks (Suc n) fp a w = freq_masks n fp a
             (w\<lparr>drawn := drawn w + 2,
                arrays := (arrays w)[a := assign_rows (draws w (drawn w + 1) mod (nrows (arrays w ! a) - draws w (drawn w) mod nat fp))
                  (draws w (drawn w + 1) mod (nrows (arrays w ! a) - draws w (drawn w) mod nat fp) + draws w (drawn w) mod nat fp)
                   (Min (set (concat (arrays w ! a)))) (arrays w ! a)]\<rparr>)"
      by (intro freq_step_ok) simp_all
    then show ?thesis using Suc.IH by simp
  qed
qed

lemma freq_masks_inv:
  assumes "a < length (arrays w)" and "freq_masks n fp a w = (Inr u, w')"
  shows "only_masked a w w' \<and> drawn w' = drawn w + 2 * n"
  using assms
proof (induction n arbitrary: w)
  case 0
  then show ?case by (simp add: only_masked_refl)
next
  case (Suc n)
  let ?f = "draws w (drawn w) mod nat fp"
  let ?p = "draws w (drawn w + 1) mod (nrows (arrays w ! a) - ?f)"
  let ?w2 = "w\<lparr>drawn := drawn w + 2,
                arrays := (arrays w)[a := assign_rows ?p (?p + ?f)
                   (Min (set (concat (arrays w ! a)))) (arrays w ! a)]\<rparr>"
  have c: "\<not> (fp \<le> 0 \<or> \<not> ?f < nrows (arrays w ! a) \<or> concat (arrays w ! a) = [])"
  proof
    assume "fp \<le> 0 \<or> \<not> ?f < nrows (arrays w ! a) \<or> concat (arrays w ! a) = []"
    from freq_step_fail[OF this, of n] obtain w'' where
      "freq_masks (Suc n) fp a w = (Inl ValueError, w'')" by blast
    with Suc.prems(2) show False by (simp del: freq_masks.simps)
  qed
  then have "freq_masks (Suc n) fp a w = freq_masks n fp a ?w2"
    by (intro freq_step_ok) simp_all
  with Suc.prems have r: "freq_masks n fp a ?w2 = (Inr u, w')" by simp
  have a2: "a < length (arrays ?w2)" using Suc.prems(1) by simp
  from Suc.IH[OF a2 r] have ih: "only_masked a ?w2 w'" "drawn w' = drawn ?w2 + 2 * n" by simp_all
  have "only_masked a w ?w2" by (rule only_masked_rows[OF Suc.prems(1)])
  from only_masked_trans[OF this ih(1)] have "only_masked a w w'" .
  then show ?case using ih(2) by simp
qed

lemma freq_masks_total:
  assumes "0 < fp" "nat fp \<le> nrows (arrays w ! a)" "concat (arrays w ! a) \<noteq> []"
    "a < length (arrays w)"
  shows "\<exists>w'. freq_masks n fp a w = (Inr (), w')"
  using assms
proof (induction n arbitrary: w)
  case 0
  show ?case by simp
next
  case (Suc n)
  let ?f = "draws w (drawn w) mod nat fp"
  let ?p = "draws w (drawn w + 1) mod (nrows (arrays w ! a) - ?f)"
  let ?w2 = "w\<lparr>drawn := drawn w + 2,
                arrays := (arrays w)[a := assign_rows ?p (?p + ?f)
                   (Min (set (concat (arrays w ! a)))) (arrays w ! a)]\<rparr>"
  have "?f < nat fp" using Suc.prems(1) by simp
  then have f: "?f < nrows (arrays w ! a)" using Suc.prems(2) by simp
  have s: "freq_masks (Suc n) fp a w = freq_masks n fp a ?w2"
    using Suc.prems f by (intro freq_step_ok) simp_all
  have om: "only_masked a w ?w2" by (rule only_masked_rows[OF Suc.prems(4)])
  have "\<exists>w'. freq_masks n fp a ?w2 = (Inr (), w')"
  proof (rule Suc.IH)
    show "0 < fp" by fact
    show "nat fp \<le> nrows (arrays ?w2 ! a)"
      using Suc.prems(2) only_masked_shape(2)[OF om] by simp
    show "concat (arrays ?w2 ! a) \<noteq> []" by (rule only_masked_nonempty[OF om Suc.prems(3)])
    show "a < length (arrays ?w2)" using Suc.prems(4) by simp
  qed
  then show ?case unfolding s .
qed

lemma time_masks_result:
  "(\<exists>w'. time_masks n tp a w = (Inl ValueError, w')) \<or> (\<exists>w'. time_masks n tp a w = (Inr (), w'))"
proof (induction n arbitrary: w)
  case 0
  show ?case by simp
next
  case (Suc n)
  show ?case
  proof (cases "tp \<le> 0 \<or> \<not> draws w (drawn w) mod nat tp < ncols (arrays w ! a)
            \<or> concat (arrays w ! a) = []")
    case True
    from time_step_fail[OF this] show ?thesis by blast
  next
    case False
    then have "time_masks (Suc n) tp a w = time_masks n tp a
             (w\<lparr>drawn := drawn w + 2,
                arrays := (arrays w)[a := assign_cols (draws w (drawn w + 1) mod (ncols (arrays w ! a) - draws w (drawn w) mod nat tp))
                  (draws w (drawn w + 1) mod (ncols (arrays w ! a) - draws w (drawn w) mod nat tp) + draws w (drawn w) mod nat tp)
                   (Min (set (concat (arrays w ! a)))) (arrays w ! a)]\<rparr>)"
      by (intro time_step_ok) simp_all
    then show ?thesis using Suc.IH by simp
  qed
qed

lemma time_masks_inv:
  assumes "a < length (arrays w)" and "time_masks n tp a w = (Inr u, w')"
  shows "only_masked a w w' \<and> drawn w' = drawn w + 2 * n"
  using assms
proof (induction n arbitrary: w)
  case 0
  then show ?case by (simp add: only_masked_refl)
next
  case (Suc n)
  let ?t = "draws w (drawn w) mod nat tp"
  let ?p = "draws w (drawn w + 1) mod (ncols (arrays w ! a) - ?t)"
  let ?w2 = "w\<lparr>drawn := drawn w + 2,
                arrays := (arrays w)[a := assign_cols ?p (?p + ?t)
                   (Min (set (concat (arrays w ! a)))) (arrays w ! a)]\<rparr>"
  have c: "\<not> (tp \<le> 0 \<or> \<not> ?t < ncols (arrays w ! a) \<or> concat (arrays w ! a) = [])"
  proof
    assume "tp \<le> 0 \<or> \<not> ?t < ncols (arrays w ! a) \<or> concat (arrays w ! a) = []"
    from time_step_fail[OF this, of n] obtain w'' where
      "time_masks (Suc n) tp a w = (Inl ValueError, w'')" by blast
    with Suc.prems(2) show False by (simp del: time_masks.simps)
  qed
  then have "time_masks (Suc n) tp a w = time_masks n tp a ?w2"
    by (intro time_step_ok) simp_all
  with Suc.prems have r: "time_masks n tp a ?w2 = (Inr u, w')" by simp
  have a2: "a < length (arrays ?w2)" using Suc.prems(1) by simp
  from Suc.IH[OF a2 r] have ih: "only_masked a ?w2 w'" "drawn w' = drawn ?w2 + 2 * n" by simp_all
  have "only_masked a w ?w2" by (rule only_masked_cols[OF Suc.prems(1)])
  from only_masked_trans[OF this ih(1)] have "only_masked a w w'" .
  then show ?case using ih(2) by simp
qed

lemma time_masks_total:
  assumes "0 < tp" "nat tp \<le> ncols (arrays w ! a)" "concat (arrays w ! a) \<noteq> []"
    "a < length (arrays w)"
  shows "\<exists>w'. time_masks n tp a w = (Inr (), w')"
  using assms
proof (induction n arbitrary: w)
  case 0
  show ?case by simp
next
  case (Suc n)
  let ?t = "draws w (drawn w) mod nat tp"
  let ?p = "draws w (drawn w + 1) mod (ncols (arrays w ! a) - ?t)"
  let ?w2 = "w\<lparr>drawn := drawn w + 2,
                arrays := (arrays w)[a := assign_cols ?p (?p + ?t)
                   (Min (set (concat (arrays w ! a)))) (arrays w ! a)]\<rparr>"
  have "?t < nat tp" using Suc.prems(1) by simp
  then have t: "?t < ncols (arrays w ! a)" using Suc.prems(2) by simp
  have s: "time_masks (Suc n) tp a w = time_masks n tp a ?w2"
    using Suc.prems t by (intro time_step_ok) simp_all
  have om: "only_masked a w ?w2" by (rule only_masked_cols[OF Suc.prems(4)])
  have "\<exists>w'. time_masks n tp a ?w2 = (Inr (), w')"
  proof (rule Suc.IH)
    show "0 < tp" by fact
    show "nat tp \<le> ncols (arrays ?w2 ! a)"
      using Suc.prems(2) only_masked_shape(3)[OF om] by simp
    show "concat (arrays ?w2 ! a) \<noteq> []" by (rule only_masked_nonempty[OF om Suc.prems(3)])
    show "a < length (arrays ?w2)" using Suc.prems(4) by simp
  qed
  then show ?case unfolding s .
qed

lemma freq_masks_two:
  assumes a: "a < length (arrays w)"
    and r: "freq_masks (Suc (Suc 0)) fp a w = (Inr u, w')"
  defines "m \<equiv> arrays w ! a"
  defines "f1 \<equiv> draws w (drawn w) mod nat fp"
  defines "p1 \<equiv> draws w (drawn w + 1) mod (nrows m - f1)"
  defines "f2 \<equiv> draws w (drawn w + 2) mod nat fp"
  defines "p2 \<equiv> draws w (drawn w + 3) mod (nrows m - f2)"
  defines "v \<equiv> Min (set (concat m))"
  shows "0 < fp" "f1 < nrows m" "f2 < nrows m" "concat m \<noteq> []"
    "w' = w\<lparr>drawn := drawn w + 4,
             arrays := (arrays w)[a := assign_rows p2 (p2 + f2) v (assign_rows p1 (p1 + f1) v m)]\<rparr>"
proof -
  let ?m1 = "assign_rows p1 (p1 + f1) v m"
  let ?w1 = "w\<lparr>drawn := drawn w + 2, arrays := (arrays w)[a := ?m1]\<rparr>"
  have c1: "\<not> (fp \<le> 0 \<or> \<not> f1 < nrows m \<or> concat m = [])"
  proof
    assume "fp \<le> 0 \<or> \<not> f1 < nrows m \<or> concat m = []"
    then have "fp \<le> 0 \<or> \<not> draws w (drawn w) mod nat fp < nrows (arrays w ! a)
            \<or> concat (arrays w ! a) = []" by (simp add: f1_def m_def)
    from freq_step_fail[OF this, of "Suc 0"] obtain w'' where
      "freq_masks (Suc (Suc 0)) fp a w = (Inl ValueError, w'')" by blast
    with r show False by (simp del: freq_masks.simps)
  qed
  then show fp: "0 < fp" and f1: "f1 < nrows m" and ne: "concat m \<noteq> []" by simp_all
  have s1: "freq_masks (Suc (Suc 0)) fp a w = freq_masks (Suc 0) fp a ?w1"
    unfolding v_def m_def
    by (rule freq_step_ok) (use fp f1 ne in \<open>simp_all add: f1_def p1_def m_def\<close>)
  have mf: "masked_from m ?m1" unfolding v_def by (rule masked_from_assign_rows)
  have m1: "arrays ?w1 ! a = ?m1" using a by simp
  have nr: "nrows ?m1 = nrows m" by (simp add: nrows_def length_assign_rows)
  have ne1: "concat ?m1 \<noteq> []" by (rule masked_from_nonempty[OF mf ne])
  have "Min (set (concat ?m1)) = Min (set (concat m))" by (rule masked_from_Min[OF mf ne])
  then have v1: "Min (set (concat ?m1)) = v" by (simp only: v_def)
  have r1: "freq_masks (Suc 0) fp a ?w1 = (Inr u, w')" using r s1 by simp
  have c2: "\<not> (fp \<le> 0 \<or> \<not> f2 < nrows m \<or> concat ?m1 = [])"
  proof
    assume "fp \<le> 0 \<or> \<not> f2 < nrows m \<or> concat ?m1 = []"
    then have "fp \<le> 0 \<or> \<not> draws ?w1 (drawn ?w1) mod nat fp < nrows (arrays ?w1 ! a)
            \<or> concat (arrays ?w1 ! a) = []" unfolding m1 nr by (simp add: f2_def)
    from freq_step_fail[OF this, of 0] obtain w'' where
      "freq_masks (Suc 0) fp a ?w1 = (Inl ValueError, w'')" by blast
    with r1 show False by (simp del: freq_masks.simps)
  qed
  then show f2: "f2 < nrows m" by simp
  have "freq_masks (Suc 0) fp a ?w1 = freq_masks 0 fp a
      (?w1\<lparr>drawn := drawn ?w1 + 2,
           arrays := (arrays ?w1)[a := assign_rows p2 (p2 + f2)
               (Min (set (concat (arrays ?w1 ! a)))) (arrays ?w1 ! a)]\<rparr>)"
    by (rule freq_step_ok) (use fp f2 ne1 a in \<open>simp_all add: f2_def p2_def nr numeral_3_eq_3 del: set_concat\<close>)
  with r1 show "w' = w\<lparr>drawn := drawn w + 4,
             arrays := (arrays w)[a := assign_rows p2 (p2 + f2) v (assign_rows p1 (p1 + f1) v m)]\<rparr>"
    unfolding m1 v1 using a by simp
qed

lemma time_masks_two:
  assumes a: "a < length (arrays w)"
    and r: "time_masks (Suc (Suc 0)) tp a w = (Inr u, w')"
  defines "m \<equiv> arrays w ! a"
  defines "t1 \<equiv> draws w (drawn w) mod nat tp"
  defines "q1 \<equiv> draws w (drawn w + 1) mod (ncols m - t1)"
  defines "t2 \<equiv> draws w (drawn w + 2) mod nat tp"
  defines "q2 \<equiv> draws w (drawn w + 3) mod (ncols m - t2)"
  defines "v \<equiv> Min (set (concat m))"
  shows "0 < tp" "t1 < ncols m" "t2 < ncols m" "concat m \<noteq> []"
    "w' = w\<lparr>drawn := drawn w + 4,
             arrays := (arrays w)[a := assign_cols q2 (q2 + t2) v (assign_cols q1 (q1 + t1) v m)]\<rparr>"
proof -
  let ?m1 = "assign_cols q1 (q1 + t1) v m"
  let ?w1 = "w\<lparr>drawn := drawn w + 2, arrays := (arrays w)[a := ?m1]\<rparr>"
  have c1: "\<not> (tp \<le> 0 \<or> \<not> t1 < ncols m \<or> concat m = [])"
  proof
    assume "tp \<le> 0 \<or> \<not> t1 < ncols m \<or> concat m = []"
    then have "tp \<le> 0 \<or> \<not> draws w (drawn w) mod nat tp < ncols (arrays w ! a)
            \<or> concat (arrays w ! a) = []" by (simp add: t1_def m_def)
    from time_step_fail[OF this, of "Suc 0"] obtain w'' where
      "time_masks (Suc (Suc 0)) tp a w = (Inl ValueError, w'')" by blast
    with r show False by (simp del: time_masks.simps)
  qed
  then show tp: "0 < tp" and t1: "t1 < ncols m" and ne: "concat m \<noteq> []" by simp_all
  have s1: "time_masks (Suc (Suc 0)) tp a w = time_masks (Suc 0) tp a ?w1"
    unfolding v_def m_def
    by (rule time_step_ok) (use tp t1 ne in \<open>simp_all add: t1_def q1_def m_def\<close>)
  have mf: "masked_from m ?m1" unfolding v_def by (rule masked_from_assign_cols)
  have m1: "arrays ?w1 ! a = ?m1" using a by simp
  have nr: "ncols ?m1 = ncols m" by (rule lengths_ncols[OF lengths_assign_cols])
  have ne1: "concat ?m1 \<noteq> []" by (rule masked_from_nonempty[OF mf ne])
  have "Min (set (concat ?m1)) = Min (set (concat m))" by (rule masked_from_Min[OF mf ne])
  then have v1: "Min (set (concat ?m1)) = v" by (simp only: v_def)
  have r1: "time_masks (Suc 0) tp a ?w1 = (Inr u, w')" using r s1 by simp
  have c2: "\<not> (tp \<le> 0 \<or> \<not> t2 < ncols m \<or> concat ?m1 = [])"
  proof
    assume "tp \<le> 0 \<or> \<not> t2 < ncols m \<or> concat ?m1 = []"
    then have "tp \<le> 0 \<or> \<not> draws ?w1 (drawn ?w1) mod nat tp < ncols (arrays ?w1 ! a)
            \<or> concat (arrays ?w1 ! a) = []" unfolding m1 nr by (simp add: t2_def)
    from time_step_fail[OF this, of 0] obtain w'' where
      "time_masks (Suc 0) tp a ?w1 = (Inl ValueError, w'')" by blast
    with r1 show False by (simp del: time_masks.simps)
  qed
  then show t2: "t2 < ncols m" by simp
  have "time_masks (Suc 0) tp a ?w1 = time_masks 0 tp a
      (?w1\<lparr>drawn := drawn ?w1 + 2,
           arrays := (arrays ?w1)[a := assign_cols q2 (q2 + t2)
               (Min (set (concat (arrays ?w1 ! a)))) (arrays ?w1 ! a)]\<rparr>)"
    by (rule time_step_ok) (use tp t2 ne1 a in \<open>simp_all add: t2_def q2_def nr numeral_3_eq_3 del: set_concat\<close>)
  with r1 show "w' = w\<lparr>drawn := drawn w + 4,
             arrays := (arrays w)[a := assign_cols q2 (q2 + t2) v (assign_cols q1 (q1 + t1) v m)]\<rparr>"
    unfolding m1 v1 using a by simp
qed

section \<open>Properties of spec_augment\<close>

lemma spec_augment_Inr:
  assumes "spec_augment a fp tp n w = (Inr a', w')"
  shows "\<exists>w1. a' = length (arrays w) \<and>
           freq_masks n fp a' (w\<lparr>arrays := arrays w @ [arrays w ! a]\<rparr>) = (Inr (), w1) \<and>
           time_masks n tp a' w1 = (Inr (), w')"
  using assms
  by (auto simp: spec_augment_def array_copy_def split: prod.splits sum.splits)

lemma spec_augment_frame:
  assumes a: "a < length (arrays w)" and r: "spec_augment a fp tp n w = (Inr a', w')"
  shows "a' = length (arrays w)"
    and "length (arrays w') = length (arrays w) + 1"
    and "\<And>b. b < length (arrays w) \<Longrightarrow> arrays w' ! b = arrays w ! b"
    and "draws w' = draws w"
    and "drawn w' = drawn w + 4 * n"
    and "masked_from (arrays w ! a) (arrays w' ! a')"
proof -
  let ?w0 = "w\<lparr>arrays := arrays w @ [arrays w ! a]\<rparr>"
  from spec_augment_Inr[OF r] obtain w1 where a': "a' = length (arrays w)"
    and f: "freq_masks n fp a' ?w0 = (Inr (), w1)" and t: "time_masks n tp a' w1 = (Inr (), w')"
    by blast
  have a0: "a' < length (arrays ?w0)" by (simp add: a')
  from freq_masks_inv[OF a0 f] have 1: "only_masked a' ?w0 w1" "drawn w1 = drawn w + 2 * n"
    by simp_all
  then have a1: "a' < length (arrays w1)" using a0 by (simp add: only_masked_def)
  from time_masks_inv[OF a1 t] have 2: "only_masked a' w1 w'" "drawn w' = drawn w1 + 2 * n"
    by simp_all
  from only_masked_trans[OF 1(1) 2(1)] have om: "only_masked a' ?w0 w'" .
  show "a' = length (arrays w)" by fact
  show "length (arrays w') = length (arrays w) + 1" using om by (simp add: only_masked_def)
  show "arrays w' ! b = arrays w ! b" if "b < length (arrays w)" for b
  proof -
    from that have "b \<noteq> a'" by (simp add: a')
    with om have "arrays w' ! b = arrays ?w0 ! b" by (simp add: only_masked_def)
    with that show ?thesis by (simp add: nth_append)
  qed
  show "draws w' = draws w" using om by (simp add: only_masked_def)
  show "drawn w' = drawn w + 4 * n" using 1(2) 2(2) by simp
  show "masked_from (arrays w ! a) (arrays w' ! a')"
    using om by (simp add: only_masked_def a')
qed


lemma row_length_assign_rows:
  "i < length m \<Longrightarrow> length (assign_rows lo hi v m ! i) = length (m ! i)"
  by (simp add: nth_assign_rows)

lemma row_length_assign_cols:
  "i < length m \<Longrightarrow> length (assign_cols lo hi v m ! i) = length (m ! i)"
  by (simp add: assign_cols_def)

lemma cell_four_masks:
  assumes "i < length m" "j < length (m ! i)"
  shows "assign_cols q2 (q2 + t2) v (assign_cols q1 (q1 + t1) v
           (assign_rows p2 (p2 + f2) v (assign_rows p1 (p1 + f1) v m))) ! i ! j =
         (if in_mask p1 f1 i \<or> in_mask p2 f2 i \<or> in_mask q1 t1 j \<or> in_mask q2 t2 j
          then v else m ! i ! j)"
  using assms
  by (simp add: cell_assign_cols cell_assign_rows length_assign_rows length_assign_cols
      row_length_assign_rows row_length_assign_cols)

lemma mask_inside: "(f::nat) < n \<Longrightarrow> x mod (n - f) + f < n"
proof -
  assume "f < n"
  then have "x mod (n - f) < n - f" by simp
  then show ?thesis by linarith
qed

lemma lengths_four_masks:
  "map length (assign_cols q2 h2 v (assign_cols q1 h1 v
           (assign_rows p2 g2 v (assign_rows p1 g1 v m)))) = map length m"
  by (simp only: lengths_assign_cols lengths_assign_rows)


lemma spec_augment_total:
  assumes a: "a < length (arrays w)"
    and fp: "0 < fp" "nat fp \<le> nrows (arrays w ! a)"
    and tp: "0 < tp" "nat tp \<le> ncols (arrays w ! a)"
    and ne: "concat (arrays w ! a) \<noteq> []"
  shows "\<exists>w'. spec_augment a fp tp n w = (Inr (length (arrays w)), w')"
proof -
  let ?a' = "length (arrays w)"
  let ?w0 = "w\<lparr>arrays := arrays w @ [arrays w ! a]\<rparr>"
  have a0: "?a' < length (arrays ?w0)" and m0: "arrays ?w0 ! ?a' = arrays w ! a" by simp_all
  from freq_masks_total[of fp ?w0 ?a' n] fp ne obtain w1 where
    f: "freq_masks n fp ?a' ?w0 = (Inr (), w1)" unfolding m0 using a0 by blast
  from freq_masks_inv[OF a0 f] have om: "only_masked ?a' ?w0 w1" by simp
  have a1: "?a' < length (arrays w1)" using om a0 by (simp add: only_masked_def)
  have "nat tp \<le> ncols (arrays w1 ! ?a')"
    using tp(2) only_masked_shape(3)[OF om] unfolding m0 by simp
  moreover have "concat (arrays w1 ! ?a') \<noteq> []"
    using only_masked_nonempty[OF om] ne unfolding m0 by blast
  ultimately obtain w' where t: "time_masks n tp ?a' w1 = (Inr (), w')"
    using time_masks_total[of tp w1 ?a' n] tp(1) a1 by blast
  show ?thesis using f t by (simp add: spec_augment_def array_copy_def)
qed

lemma ncols_pos_concat: "0 < ncols m \<Longrightarrow> concat m \<noteq> []"
  by (cases m) (auto simp: ncols_def)

lemma spec_augment_fails_rows:
  assumes "nrows (arrays w ! a) < 10"
  shows "\<exists>w'. spec_augment a 10 tp (Suc n) (w\<lparr>draws := (\<lambda>_. nrows (arrays w ! a))\<rparr>)
            = (Inl ValueError, w')"
proof -
  let ?a' = "length (arrays w)"
  let ?w0 = "w\<lparr>draws := (\<lambda>_. nrows (arrays w ! a)), arrays := arrays w @ [arrays w ! a]\<rparr>"
  have "\<exists>w'. freq_masks (Suc n) 10 ?a' ?w0 = (Inl ValueError, w')"
    by (rule freq_step_fail) (use assms in simp)
  then obtain w' where "freq_masks (Suc n) 10 ?a' ?w0 = (Inl ValueError, w')" by blast
  then show ?thesis by (simp add: spec_augment_def array_copy_def del: freq_masks.simps)
qed

lemma spec_augment_fails_cols:
  assumes "ncols (arrays w ! a) < 20"
  shows "\<exists>w'. spec_augment a fp 20 (Suc n) (w\<lparr>draws := (\<lambda>_. ncols (arrays w ! a))\<rparr>)
            = (Inl ValueError, w')"
proof -
  let ?a' = "length (arrays w)"
  let ?g = "\<lambda>_::nat. ncols (arrays w ! a)"
  let ?w0 = "w\<lparr>draws := ?g, arrays := arrays w @ [arrays w ! a]\<rparr>"
  have a0: "?a' < length (arrays ?w0)" and m0: "arrays ?w0 ! ?a' = arrays w ! a" by simp_all
  from freq_masks_result[of "Suc n" fp ?a' ?w0]
  show ?thesis
  proof (elim disjE exE)
    fix w' assume "freq_masks (Suc n) fp ?a' ?w0 = (Inl ValueError, w')"
    then show ?thesis by (simp add: spec_augment_def array_copy_def del: freq_masks.simps)
  next
    fix w1 assume f: "freq_masks (Suc n) fp ?a' ?w0 = (Inr (), w1)"
    from freq_masks_inv[OF a0 f] have om: "only_masked ?a' ?w0 w1" by simp
    then have g1: "draws w1 = ?g" by (simp add: only_masked_def)
    have c1: "ncols (arrays w1 ! ?a') = ncols (arrays w ! a)"
      using only_masked_shape(3)[OF om] unfolding m0 .
    have "\<exists>w'. time_masks (Suc n) 20 ?a' w1 = (Inl ValueError, w')"
      by (rule time_step_fail) (use assms in \<open>simp add: g1 c1\<close>)
    then obtain w' where "time_masks (Suc n) 20 ?a' w1 = (Inl ValueError, w')" by blast
    with f show ?thesis
      by (simp add: spec_augment_def array_copy_def del: freq_masks.simps time_masks.simps)
  qed
qed


lemma grid_run:
  "spec_augment 0 10 20 2 grid_world =
     (Inr 1, \<lparr> arrays = [grid, [[1, 1, 1], [1, 1, 1], [1, 1, 9]]], draws = grid_draws, drawn = 8 \<rparr>)"
  by (simp add: spec_augment_def array_copy_def grid_world_def numeral_2_eq_2
      np_random_randint_def np_min_def grid_def grid_draws_def nrows_def ncols_def
      assign_rows_def assign_cols_def)

lemma grid_fail:
  "spec_augment 0 10 20 2 (grid_world\<lparr>draws := (\<lambda>_. 3)\<rparr>) =
     (Inl ValueError, \<lparr> arrays = [grid, grid], draws = (\<lambda>_. 3), drawn = 1 \<rparr>)"
  by (simp add: spec_augment_def array_copy_def grid_world_def numeral_2_eq_2
      np_random_randint_def np_min_def grid_def nrows_def ncols_def)

text \<open>
  C5.  For every parameter setting: when \<open>spec_augment\<close> returns, its result is an
  array at a fresh address; every array that existed before the call, the caller's
  input among them, still holds the cells it held; the result has the input's shape
  (row by row); and \<open>np.min\<close> of the result equals \<open>np.min\<close> of the input.
\<close>

theorem spec_augment_preserves:
  assumes "a < length (arrays w)"
    and "spec_augment a freq_mask_param time_mask_param num_masks w = (Inr a', w')"
  shows "a' \<noteq> a \<and> length (arrays w) \<le> a' \<and> a' < length (arrays w') \<and>
         (\<forall>b<length (arrays w). arrays w' ! b = arrays w ! b) \<and>
         nrows (arrays w' ! a') = nrows (arrays w ! a) \<and>
         ncols (arrays w' ! a') = ncols (arrays w ! a) \<and>
         map length (arrays w' ! a') = map length (arrays w ! a) \<and>
         np_min (arrays w' ! a') = np_min (arrays w ! a)"
proof -
  note fr = spec_augment_frame[OF assms]
  note L = masked_from_lengths[OF fr(6)]
  show ?thesis
    using assms(1) fr(1,2,3) L lengths_nrows[OF L] lengths_ncols[OF L] masked_from_np_min[OF fr(6)]
    by simp
qed

theorem spec_augment_preserves_witness:
  "0 < length (arrays grid_world) \<and>
   spec_augment 0 10 20 2 grid_world =
     (Inr 1, \<lparr> arrays = [grid, [[1, 1, 1], [1, 1, 1], [1, 1, 9]]],
                draws = grid_draws, drawn = 8 \<rparr>) \<and>
   np_min [[1, 1, 1], [1, 1, 1], [1, 1, 9]] = np_min grid \<and>
   map length [[1, 1, 1], [1, 1, 1], [1, 1, 9::real]] = map length grid"
proof -
  have 1: "0 < length (arrays grid_world)" by (simp add: grid_world_def)
  from spec_augment_preserves [OF 1 grid_run] 1 grid_run show ?thesis
    by (simp add: grid_world_def)
qed

text \<open>
  C6.  With the default parameters a returning call makes eight draws, one per width and
  one per position: two row bands of widths \<open>f1, f2 < 10\<close> at \<open>p1, p2\<close> and two column
  spans of widths \<open>t1, t2 < 20\<close> at \<open>q1, q2\<close>, each lying inside the matrix.  The result
  has the input's shape; a cell inside one of the four masks holds the minimum of the
  input matrix, every other cell holds its input value.
\<close>

theorem spec_augment_default_masks:
  assumes a: "a < length (arrays w)" and r: "spec_augment a 10 20 2 w = (Inr a', w')"
  defines "m \<equiv> arrays w ! a" and "g \<equiv> (\<lambda>k. draws w (drawn w + k))"
  shows "\<exists>f1 p1 f2 p2 t1 q1 t2 q2.
     f1 = g 0 mod 10 \<and> p1 = g 1 mod (nrows m - f1) \<and>
     f2 = g 2 mod 10 \<and> p2 = g 3 mod (nrows m - f2) \<and>
     t1 = g 4 mod 20 \<and> q1 = g 5 mod (ncols m - t1) \<and>
     t2 = g 6 mod 20 \<and> q2 = g 7 mod (ncols m - t2) \<and>
     f1 < 10 \<and> f2 < 10 \<and> t1 < 20 \<and> t2 < 20 \<and>
     p1 + f1 < nrows m \<and> p2 + f2 < nrows m \<and> q1 + t1 < ncols m \<and> q2 + t2 < ncols m \<and>
     drawn w' = drawn w + 8 \<and>
     map length (arrays w' ! a') = map length m \<and>
     (\<forall>i<nrows m. \<forall>j<length (m ! i).
        arrays w' ! a' ! i ! j =
          (if in_mask p1 f1 i \<or> in_mask p2 f2 i \<or> in_mask q1 t1 j \<or> in_mask q2 t2 j
           then Min (set (concat m)) else m ! i ! j))"
proof -
  let ?w0 = "w\<lparr>arrays := arrays w @ [m]\<rparr>"
  define v where "v = Min (set (concat m))"
  define f1 where "f1 = g 0 mod 10"
  define p1 where "p1 = g 1 mod (nrows m - f1)"
  define f2 where "f2 = g 2 mod 10"
  define p2 where "p2 = g 3 mod (nrows m - f2)"
  define t1 where "t1 = g 4 mod 20"
  define q1 where "q1 = g 5 mod (ncols m - t1)"
  define t2 where "t2 = g 6 mod 20"
  define q2 where "q2 = g 7 mod (ncols m - t2)"
  define R where "R = assign_rows p2 (p2 + f2) v (assign_rows p1 (p1 + f1) v m)"
  define C where "C = assign_cols q2 (q2 + t2) v (assign_cols q1 (q1 + t1) v R)"
  from spec_augment_Inr[OF r] obtain w1 where a': "a' = length (arrays w)"
    and f: "freq_masks (Suc (Suc 0)) 10 a' ?w0 = (Inr (), w1)"
    and t: "time_masks (Suc (Suc 0)) 20 a' w1 = (Inr (), w')"
    by (auto simp: m_def numeral_2_eq_2)
  have a0: "a' < length (arrays ?w0)" and m0: "arrays ?w0 ! a' = m" by (simp_all add: a')
  note F = freq_masks_two[OF a0 f, unfolded m0]
  have w1: "w1 = ?w0\<lparr>drawn := drawn w + 4, arrays := (arrays ?w0)[a' := R]\<rparr>"
    using F(5) by (simp add: R_def v_def f1_def p1_def f2_def p2_def g_def)
  have fb: "f1 < nrows m" "f2 < nrows m" and ne: "concat m \<noteq> []"
    using F(2,3,4) by (simp_all add: f1_def f2_def g_def)
  have a1: "a' < length (arrays w1)" and m1: "arrays w1 ! a' = R"
    and d1: "drawn w1 = drawn w + 4" and g1: "draws w1 = draws w"
    by (simp_all add: w1 a')
  have mf1: "masked_from m (assign_rows p1 (p1 + f1) v m)"
    unfolding v_def by (rule masked_from_assign_rows)
  have "Min (set (concat (assign_rows p1 (p1 + f1) v m))) = Min (set (concat m))"
    by (rule masked_from_Min[OF mf1 ne])
  then have v1: "Min (set (concat (assign_rows p1 (p1 + f1) v m))) = v" by (simp only: v_def)
  have mf2: "masked_from (assign_rows p1 (p1 + f1) v m) R"
    using masked_from_assign_rows[of "assign_rows p1 (p1 + f1) v m" p2 f2]
    unfolding v1 R_def .
  have mfR: "masked_from m R" by (rule masked_from_trans[OF mf1 mf2])
  have vR: "Min (set (concat R)) = v" unfolding v_def by (rule masked_from_Min[OF mfR ne])
  have cR: "ncols R = ncols m" by (rule lengths_ncols[OF masked_from_lengths[OF mfR]])
  note T = time_masks_two[OF a1 t, unfolded m1 d1 g1 vR cR]
  have w': "w' = w1\<lparr>drawn := drawn w + 8, arrays := (arrays w1)[a' := C]\<rparr>"
    using T(5) by (simp add: C_def t1_def q1_def t2_def q2_def g_def ac_simps)
  have tb: "t1 < ncols m" "t2 < ncols m"
    using T(2,3) by (simp_all add: t1_def t2_def g_def ac_simps)
  have res: "arrays w' ! a' = C" and dr: "drawn w' = drawn w + 8"
    using a1 by (simp_all add: w')
  have pb: "p1 + f1 < nrows m" "p2 + f2 < nrows m" "q1 + t1 < ncols m" "q2 + t2 < ncols m"
    unfolding p1_def p2_def q1_def q2_def
    using fb tb by (simp_all only: mask_inside)
  have "f1 < 10" "f2 < 10" "t1 < 20" "t2 < 20" by (simp_all add: f1_def f2_def t1_def t2_def)
  moreover have "map length (arrays w' ! a') = map length m"
    unfolding res C_def R_def by (rule lengths_four_masks)
  moreover have "\<forall>i<nrows m. \<forall>j<length (m ! i).
        arrays w' ! a' ! i ! j =
          (if in_mask p1 f1 i \<or> in_mask p2 f2 i \<or> in_mask q1 t1 j \<or> in_mask q2 t2 j
           then Min (set (concat m)) else m ! i ! j)"
    unfolding res C_def R_def v_def[symmetric] nrows_def
    by (intro allI impI) (rule cell_four_masks)
  ultimately show ?thesis
    using pb dr f1_def p1_def f2_def p2_def t1_def q1_def t2_def q2_def by blast
qed

theorem spec_augment_default_masks_witness:
  "0 < length (arrays grid_world) \<and>
   spec_augment 0 10 20 2 grid_world =
     (Inr 1, \<lparr> arrays = [grid, [[1, 1, 1], [1, 1, 1], [1, 1, 9]]],
                draws = grid_draws, drawn = 8 \<rparr>) \<and>
   in_mask 0 1 0 \<and> in_mask 1 1 1 \<and> \<not> in_mask 0 1 2 \<and> \<not> in_mask 1 1 2 \<and>
   Min (set (concat grid)) = 1"
proof -
  have 1: "0 < length (arrays grid_world)" by (simp add: grid_world_def)
  from spec_augment_default_masks [OF 1 grid_run] 1 grid_run show ?thesis
    by (simp add: grid_def in_mask_def)
qed

text \<open>
  C7.  Whether a call returns depends on the draws, so returning normally is read as
  returning for every outcome of the draws.  With the default parameters,
  \<open>spec_augment\<close> returns for every outcome when the input has at least 10 rows and at
  least 20 columns; when it has fewer than 10 rows or fewer than 20 columns, some
  outcome (a width that leaves no room for a position) makes the call raise
  \<open>ValueError\<close>.
\<close>

theorem spec_augment_returns_iff:
  assumes a: "a < length (arrays w)"
  defines "m \<equiv> arrays w ! a"
  shows "(10 \<le> nrows m \<and> 20 \<le> ncols m \<longrightarrow>
            (\<forall>g. \<exists>a' w'. spec_augment a 10 20 2 (w\<lparr>draws := g\<rparr>) = (Inr a', w'))) \<and>
         (nrows m < 10 \<or> ncols m < 20 \<longrightarrow>
            (\<exists>g w'. spec_augment a 10 20 2 (w\<lparr>draws := g\<rparr>) = (Inl ValueError, w')))"
proof (intro conjI impI allI)
  fix g assume big: "10 \<le> nrows m \<and> 20 \<le> ncols m"
  let ?w = "w\<lparr>draws := g\<rparr>"
  have "concat m \<noteq> []" using big by (intro ncols_pos_concat) simp
  with big a have "\<exists>w'. spec_augment a 10 20 2 ?w = (Inr (length (arrays ?w)), w')"
    by (intro spec_augment_total) (simp_all add: m_def)
  then show "\<exists>a' w'. spec_augment a 10 20 2 ?w = (Inr a', w')" by blast
next
  assume "nrows m < 10 \<or> ncols m < 20"
  then show "\<exists>g w'. spec_augment a 10 20 2 (w\<lparr>draws := g\<rparr>) = (Inl ValueError, w')"
  proof
    assume "nrows m < 10"
    from spec_augment_fails_rows[of w a 20 "Suc 0"] this show ?thesis
      unfolding m_def numeral_2_eq_2 by blast
  next
    assume "ncols m < 20"
    from spec_augment_fails_cols[of w a 10 "Suc 0"] this show ?thesis
      unfolding m_def numeral_2_eq_2 by blast
  qed
qed

theorem spec_augment_returns_iff_witness:
  "0 < length (arrays wide_world) \<and>
   10 \<le> nrows (arrays wide_world ! 0) \<and> 20 \<le> ncols (arrays wide_world ! 0) \<and>
   (\<exists>a' w'. spec_augment 0 10 20 2 (wide_world\<lparr>draws := grid_draws\<rparr>) = (Inr a', w')) \<and>
   0 < length (arrays grid_world) \<and> nrows (arrays grid_world ! 0) < 10 \<and>
   spec_augment 0 10 20 2 (grid_world\<lparr>draws := (\<lambda>_. 3)\<rparr>) =
     (Inl ValueError, \<lparr> arrays = [grid, grid], draws = (\<lambda>_. 3), drawn = 1 \<rparr>)"
proof -
  have 1: "0 < length (arrays wide_world)" by (simp add: wide_world_def)
  have 2: "10 \<le> nrows (arrays wide_world ! 0) \<and> 20 \<le> ncols (arrays wide_world ! 0)"
    by (simp add: wide_world_def nrows_def ncols_def eval_nat_numeral)
  have 3: "0 < length (arrays grid_world)" "nrows (arrays grid_world ! 0) < 10"
    by (simp_all add: grid_world_def grid_def nrows_def)
  from spec_augment_returns_iff [OF 1] 2
  have "\<exists>a' w'. spec_augment 0 10 20 2 (wide_world\<lparr>draws := grid_draws\<rparr>) = (Inr a', w')"
    by blast
  with 1 2 3 grid_fail show ?thesis by blast
qed

section \<open>Properties of get_audio_augmenter\<close>

lemma only_TypeError_cases:
  "(\<And>e. r = Inl e \<Longrightarrow> e = TypeError) \<Longrightarrow> (\<exists>x. r = Inr x) \<or> r = Inl TypeError"
  by (cases r) auto

lemma gain_db_run:
  "get_audio_augmenter lib_gain_db =
     Inr [Transform ''AddGaussianNoise'' noise_args, Transform ''TimeStretch'' stretch_args,
          Transform ''PitchShift'' pitch_args, Transform ''Gain'' gain_db_args]"
  by (simp add: get_audio_augmenter_def lib_gain_db_def ctor_def py_call_def
      noise_args_def stretch_args_def pitch_args_def gain_in_db_args_def gain_db_args_def)

lemma pitch_renamed_run:
  "get_audio_augmenter lib_pitch_renamed =
     Inr [Transform ''AddGaussianNoise'' noise_args, Transform ''TimeStretch'' stretch_args]"
  by (simp add: get_audio_augmenter_def lib_pitch_renamed_def lib_gain_db_def ctor_def py_call_def
      noise_args_def stretch_args_def pitch_args_def gain_in_db_args_def gain_db_args_def)

text \<open>
  C8, as amended.  Suppose \<open>AddGaussianNoise\<close>, \<open>TimeStretch\<close> and \<open>Compose\<close> accept
  their arguments and \<open>PitchShift\<close> and \<open>Gain\<close> raise nothing but \<open>TypeError\<close>.  Then
  construction returns a pipeline: the four transforms with \<open>min_gain_in_db\<close> if that
  builds; otherwise the four transforms with \<open>min_gain_db\<close> if that builds; otherwise
  Gaussian noise and time-stretch only.
\<close>

theorem augmenter_fallback:
  assumes noise: "AddGaussianNoise A noise_args = Inr n"
    and stretch: "TimeStretch A stretch_args = Inr s"
    and compose: "\<And>ts. \<exists>c. Compose A ts = Inr c"
    and pitch: "\<And>e. PitchShift A pitch_args = Inl e \<Longrightarrow> e = TypeError"
    and gain: "\<And>e. Gain A gain_in_db_args = Inl e \<Longrightarrow> e = TypeError"
      "\<And>e. Gain A gain_db_args = Inl e \<Longrightarrow> e = TypeError"
  shows "(\<exists>c. get_audio_augmenter A = Inr c) \<and>
         get_audio_augmenter A =
           (case (PitchShift A pitch_args, Gain A gain_in_db_args, Gain A gain_db_args) of
              (Inr p, Inr g, _) \<Rightarrow> Compose A [n, s, p, g]
            | (Inr p, Inl _, Inr g) \<Rightarrow> Compose A [n, s, p, g]
            | _ \<Rightarrow> Compose A [n, s])"
proof -
  have c: "Compose A ts \<noteq> Inl e" for ts e using compose[of ts] by auto
  note p = only_TypeError_cases[of "PitchShift A pitch_args", OF pitch]
  note g1 = only_TypeError_cases[of "Gain A gain_in_db_args", OF gain(1)]
  note g2 = only_TypeError_cases[of "Gain A gain_db_args", OF gain(2)]
  have eq: "get_audio_augmenter A =
           (case (PitchShift A pitch_args, Gain A gain_in_db_args, Gain A gain_db_args) of
              (Inr p, Inr g, _) \<Rightarrow> Compose A [n, s, p, g]
            | (Inr p, Inl _, Inr g) \<Rightarrow> Compose A [n, s, p, g]
            | _ \<Rightarrow> Compose A [n, s])"
    using p g1 g2 c
    by (auto simp: get_audio_augmenter_def py_call_def noise stretch split: sum.splits)
  moreover have "\<exists>c. get_audio_augmenter A = Inr c"
    unfolding eq using compose by (auto split: sum.splits)
  ultimately show ?thesis by blast
qed

theorem augmenter_fallback_witness:
  "AddGaussianNoise lib_gain_db noise_args = Inr (Transform ''AddGaussianNoise'' noise_args) \<and>
   TimeStretch lib_gain_db stretch_args = Inr (Transform ''TimeStretch'' stretch_args) \<and>
   Gain lib_gain_db gain_in_db_args = Inl TypeError \<and>
   get_audio_augmenter lib_gain_db =
     Inr [Transform ''AddGaussianNoise'' noise_args, Transform ''TimeStretch'' stretch_args,
          Transform ''PitchShift'' pitch_args, Transform ''Gain'' gain_db_args] \<and>
   PitchShift lib_pitch_renamed pitch_args = Inl TypeError \<and>
   get_audio_augmenter lib_pitch_renamed =
     Inr [Transform ''AddGaussianNoise'' noise_args, Transform ''TimeStretch'' stretch_args]"
proof -
  have 1: "AddGaussianNoise lib_gain_db noise_args = Inr (Transform ''AddGaussianNoise'' noise_args)"
    and 2: "TimeStretch lib_gain_db stretch_args = Inr (Transform ''TimeStretch'' stretch_args)"
    and 3: "\<And>ts. \<exists>c. Compose lib_gain_db ts = Inr c"
    and 4: "\<And>e. PitchShift lib_gain_db pitch_args = Inl e \<Longrightarrow> e = TypeError"
    and 5: "\<And>e. Gain lib_gain_db gain_in_db_args = Inl e \<Longrightarrow> e = TypeError"
    and 6: "\<And>e. Gain lib_gain_db gain_db_args = Inl e \<Longrightarrow> e = TypeError"
    and 7: "Gain lib_gain_db gain_in_db_args = Inl TypeError"
    and 8: "PitchShift lib_pitch_renamed pitch_args = Inl TypeError"
    by (simp_all add: lib_gain_db_def lib_pitch_renamed_def ctor_def noise_args_def stretch_args_def
        pitch_args_def gain_in_db_args_def gain_db_args_def)
  from augmenter_fallback [OF 1 2 3 4 5 6] 1 2 7 8 gain_db_run pitch_renamed_run
  show ?thesis by blast
qed

text \<open>
  C8 as stated fails: an incompatible \<open>AddGaussianNoise\<close> makes all three attempts
  raise \<open>TypeError\<close>, and the third is not guarded; a missing \<open>PitchShift\<close> class
  raises \<open>AttributeError\<close>, which no clause catches.
\<close>

theorem augmenter_never_raises_counterexample:
  "get_audio_augmenter lib_noise_renamed = Inl TypeError \<and>
   get_audio_augmenter lib_no_pitch = Inl AttributeError"
  by (simp add: get_audio_augmenter_def lib_noise_renamed_def lib_no_pitch_def lib_gain_db_def
      ctor_def py_call_def
      noise_args_def stretch_args_def pitch_args_def gain_in_db_args_def gain_db_args_def)

section \<open>Properties of resize_for_cnn\<close>

lemma resize_for_cnn_state: "snd (resize_for_cnn cv a ts w) = w"
  by (simp add: resize_for_cnn_def Let_def split: sum.splits)

lemma resize_for_cnn_reads_only_spec:
  "arrays w1 ! a1 = arrays w2 ! a2 \<Longrightarrow>
   fst (resize_for_cnn cv a1 ts w1) = fst (resize_for_cnn cv a2 ts w2)"
  by (simp add: resize_for_cnn_def Let_def split: sum.splits)


lemma nrows_replicate: "nrows (replicate n r) = n"
  by (simp add: nrows_def)

lemma ncols_replicate: "0 < n \<Longrightarrow> ncols (replicate n r) = length r"
  by (cases n) (simp_all add: ncols_def)

lemma set_concat_constant:
  "0 < n \<Longrightarrow> 0 < k \<Longrightarrow> set (concat (replicate n (replicate k x))) = {x}"
  by auto

lemma np_min_constant: "0 < n \<Longrightarrow> 0 < k \<Longrightarrow> np_min (replicate n (replicate k x)) = Inr x"
  by (simp add: np_min_def set_concat_constant del: set_concat)

lemma np_max_constant:
  "0 < n \<Longrightarrow> 0 < k \<Longrightarrow> np_max (concat (replicate n (replicate k x))) = Inr x"
  by (simp add: np_max_def set_concat_constant del: set_concat)


lemma sized_nrows: "sized m h w \<Longrightarrow> nrows m = h"
  by (simp add: sized_def nrows_def)

lemma sized_ncols: "sized m h w \<Longrightarrow> 0 < h \<Longrightarrow> ncols m = w"
  by (cases m) (auto simp: sized_def ncols_def)

lemma sized_concat: "sized m h w \<Longrightarrow> 0 < h \<Longrightarrow> 0 < w \<Longrightarrow> concat m \<noteq> []"
  by (cases m) (auto simp: sized_def)

lemma sized_map: "sized m h w \<Longrightarrow> sized (map (map f) m) h w"
  by (simp add: sized_def list_all_iff)

lemma sized_rect: "rect m \<Longrightarrow> sized m (nrows m) (ncols m)"
  by (simp add: sized_def rect_def nrows_def)

lemma shape3_sized: "sized img h w \<Longrightarrow> 0 < h \<Longrightarrow> shape3 img = (h, w, 3)"
  by (simp add: shape3_def sized_nrows sized_ncols)

lemma resize_contractD:
  "resize_contract f \<Longrightarrow> concat m \<noteq> [] \<Longrightarrow> 0 < width \<Longrightarrow> 0 < height \<Longrightarrow>
     \<exists>r. f m (width, height) = Inr r \<and> sized r height width"
  unfolding resize_contract_def by blast

text \<open>The steps after the squaring, on an image of known size.\<close>

lemma resize_for_cnn_last:
  assumes si: "sized spec_img h c" and h: "0 < h" and c: "0 < c"
    and u8: "resize_contract (resize_u8 cv)"
    and t: "0 < th" "0 < tw"
  shows "\<exists>img.
     (case (if cond then resize_u8 cv spec_img (tw, th) else Inr spec_img) of
        Inl e \<Rightarrow> (Inl e, w)
      | Inr spec_img_resized \<Rightarrow>
          (Inr (cvtColor_BGR2RGB (applyColorMap cv spec_img_resized)), w)) =
     (Inr img, w) \<and>
     (if cond then sized img th tw else sized img h c)"
proof (cases cond)
  case True
  have sne: "concat spec_img \<noteq> []" by (rule sized_concat[OF si h c])
  from resize_contractD[OF u8 sne t(2) t(1)] obtain r where
    r: "resize_u8 cv spec_img (tw, th) = Inr r" "sized r th tw" by blast
  have "sized (cvtColor_BGR2RGB (applyColorMap cv r)) th tw"
    unfolding cvtColor_BGR2RGB_def applyColorMap_def by (intro sized_map r(2))
  then show ?thesis using True r(1) by simp
next
  case False
  have "sized (cvtColor_BGR2RGB (applyColorMap cv spec_img)) h c"
    unfolding cvtColor_BGR2RGB_def applyColorMap_def by (intro sized_map si)
  then show ?thesis using False by simp
qed

lemma resize_for_cnn_tail:
  assumes sq: "sized square_spec h c" and h: "0 < h" and c: "0 < c"
    and u8: "resize_contract (resize_u8 cv)"
    and t: "0 < th" "0 < tw"
  shows "\<exists>img.
     (case np_min square_spec of
        Inl e \<Rightarrow> (Inl e, w)
      | Inr spec_min \<Rightarrow>
          (case np_max (concat square_spec) of
             Inl e \<Rightarrow> (Inl e, w)
           | Inr spec_max \<Rightarrow>
               (let spec_normalized =
                      map (map (\<lambda>x. (x - spec_min) / (spec_max - spec_min + 1 / 10 ^ 10)))
                        square_spec;
                    spec_img = map (map (\<lambda>x. astype_uint8 (x * 255))) spec_normalized
                in case (if (th, tw) \<noteq> (n, n)
                         then resize_u8 cv spec_img (snd (th, tw), fst (th, tw))
                         else Inr spec_img) of
                     Inl e \<Rightarrow> (Inl e, w)
                   | Inr spec_img_resized \<Rightarrow>
                       (Inr (cvtColor_BGR2RGB (applyColorMap cv spec_img_resized)), w)))) =
     (Inr img, w) \<and>
     (if (th, tw) \<noteq> (n, n) then sized img th tw else sized img h c)"
proof -
  have ne: "concat square_spec \<noteq> []" by (rule sized_concat[OF sq h c])
  have m: "np_min square_spec = Inr (Min (set (concat square_spec)))"
    "np_max (concat square_spec) = Inr (Max (set (concat square_spec)))"
    using ne by (simp_all add: np_min_def np_max_def del: set_concat)
  show ?thesis
    unfolding m sum.case Let_def snd_conv fst_conv
    by (rule resize_for_cnn_last[OF _ h c u8 t]) (intro sized_map sq)
qed

text \<open>
  The shape of the result, given the shapes \<open>cv2.resize\<close> promises: it is the target
  size, except when the target is the square of the input's row count and the input's
  width is within twenty percent of that count; then neither resize runs and the image
  keeps the input's width.
\<close>

lemma resize_for_cnn_shape:
  assumes f64: "resize_contract (resize_f64 cv)" and u8: "resize_contract (resize_u8 cv)"
    and m: "m = arrays w ! a" and r: "rect m" and n: "0 < nrows m" and c: "0 < ncols m"
    and t: "0 < th" "0 < tw"
  shows "\<exists>img. resize_for_cnn cv a (th, tw) w = (Inr img, w) \<and>
           shape3 img =
             (if (th, tw) = (nrows m, nrows m) \<and>
                 \<not> \<bar>real_of_int (int (ncols m) - int (nrows m))\<bar> / real (nrows m) > 0.2
              then (nrows m, ncols m, 3) else (th, tw, 3))"
proof (cases "\<bar>real_of_int (int (ncols m) - int (nrows m))\<bar> / real (nrows m) > 0.2")
  case True
  from resize_contractD[OF f64 ncols_pos_concat[OF c] n n] obtain sq where
    sq: "resize_f64 cv m (nrows m, nrows m) = Inr sq" "sized sq (nrows m) (nrows m)" by blast
  from resize_for_cnn_tail[OF sq(2) n n u8 t, where n = "nrows m" and w = w] obtain img where
    img: "(case np_min sq of
        Inl e \<Rightarrow> (Inl e, w)
      | Inr spec_min \<Rightarrow>
          (case np_max (concat sq) of
             Inl e \<Rightarrow> (Inl e, w)
           | Inr spec_max \<Rightarrow>
               (let spec_normalized =
                      map (map (\<lambda>x. (x - spec_min) / (spec_max - spec_min + 1 / 10 ^ 10))) sq;
                    spec_img = map (map (\<lambda>x. astype_uint8 (x * 255))) spec_normalized
                in case (if (th, tw) \<noteq> (nrows m, nrows m)
                         then resize_u8 cv spec_img (snd (th, tw), fst (th, tw))
                         else Inr spec_img) of
                     Inl e \<Rightarrow> (Inl e, w)
                   | Inr spec_img_resized \<Rightarrow>
                       (Inr (cvtColor_BGR2RGB (applyColorMap cv spec_img_resized)), w)))) =
     (Inr img, w)"
    and sz: "if (th, tw) \<noteq> (nrows m, nrows m) then sized img th tw
             else sized img (nrows m) (nrows m)"
    by blast
  have run: "resize_for_cnn cv a (th, tw) w = (Inr img, w)"
    unfolding resize_for_cnn_def m[symmetric]
    using n True sq(1) img by (simp add: Let_def)
  have "shape3 img = (th, tw, 3)"
    using sz t n by (auto simp: shape3_sized split: if_splits)
  with run True show ?thesis by auto
next
  case False
  have sq: "sized m (nrows m) (ncols m)" by (rule sized_rect[OF r])
  from resize_for_cnn_tail[OF sq n c u8 t, where n = "nrows m" and w = w] obtain img where
    img: "(case np_min m of
        Inl e \<Rightarrow> (Inl e, w)
      | Inr spec_min \<Rightarrow>
          (case np_max (concat m) of
             Inl e \<Rightarrow> (Inl e, w)
           | Inr spec_max \<Rightarrow>
               (let spec_normalized =
                      map (map (\<lambda>x. (x - spec_min) / (spec_max - spec_min + 1 / 10 ^ 10))) m;
                    spec_img = map (map (\<lambda>x. astype_uint8 (x * 255))) spec_normalized
                in case (if (th, tw) \<noteq> (nrows m, nrows m)
                         then resize_u8 cv spec_img (snd (th, tw), fst (th, tw))
                         else Inr spec_img) of
                     Inl e \<Rightarrow> (Inl e, w)
                   | Inr spec_img_resized \<Rightarrow>
                       (Inr (cvtColor_BGR2RGB (applyColorMap cv spec_img_resized)), w)))) =
     (Inr img, w)"
    and sz: "if (th, tw) \<noteq> (nrows m, nrows m) then sized img th tw
             else sized img (nrows m) (ncols m)"
    by blast
  have run: "resize_for_cnn cv a (th, tw) w = (Inr img, w)"
    unfolding resize_for_cnn_def m[symmetric]
    using n False img by (simp add: Let_def)
  have "shape3 img = (if (th, tw) = (nrows m, nrows m) then (nrows m, ncols m, 3) else (th, tw, 3))"
    using sz t n by (auto simp: shape3_sized split: if_splits)
  with run False show ?thesis by auto
qed

lemma nearest_contract: "resize_contract nearest"
  by (simp add: resize_contract_def nearest_def sized_def list_all_iff)

lemma cv_nearest_contract:
  "resize_contract (resize_f64 cv_nearest)" "resize_contract (resize_u8 cv_nearest)"
  by (simp_all add: cv_nearest_def nearest_contract)

lemma upt_0_2: "[0..<2] = [0, 1]"
  by (simp add: numeral_2_eq_2)

lemma grid_image:
  "resize_for_cnn cv_nearest 0 (2, 2) grid_world =
     (Inr [[(0, 0, 128), (0, 0, 128)], [(0, 255, 0), (0, 255, 0)]], grid_world)"
  by (simp add: resize_for_cnn_def Let_def grid_world_def grid_def nrows_def ncols_def
      np_min_def np_max_def astype_uint8_def applyColorMap_def cvtColor_BGR2RGB_def
      cv_nearest_def nearest_def upt_0_2)

lemma tall_image:
  "resize_for_cnn cv_nearest 0 (224, 224) tall_world =
     (Inr (replicate 224 (replicate 200 (0, 0, 128))), tall_world)"
  by (simp add: tall_world_def resize_for_cnn_def Let_def nrows_replicate ncols_replicate
      np_min_constant np_max_constant astype_uint8_def applyColorMap_def cvtColor_BGR2RGB_def
      cv_nearest_def)

text \<open>
  C2 fails on the code.  For every matrix of 224 rows and 200 columns the squaring is
  skipped, because 200 is within twenty percent of 224, and the final resize is skipped,
  because \<open>target_size\<close> equals \<open>(n_mels, n_mels)\<close>: the image has shape
  \<open>(224, 200, 3)\<close>, whatever OpenCV's resize and palette are.
\<close>

theorem resize_for_cnn_keeps_width:
  assumes m: "m = arrays w ! a" and s: "sized m 224 200"
  shows "\<exists>img. resize_for_cnn cv a (224, 224) w = (Inr img, w) \<and> shape3 img = (224, 200, 3)"
proof -
  have n: "nrows m = 224" and c: "ncols m = 200"
    using s by (simp_all add: sized_nrows sized_ncols)
  have ne: "concat m \<noteq> []" by (rule sized_concat[OF s]) simp_all
  define img where "img = cvtColor_BGR2RGB (applyColorMap cv
      (map (map (\<lambda>x. astype_uint8 (x * 255)))
        (map (map (\<lambda>x. (x - Min (set (concat m))) /
            (Max (set (concat m)) - Min (set (concat m)) + 1 / 10 ^ 10))) m)))"
  have "sized img 224 200"
    unfolding img_def cvtColor_BGR2RGB_def applyColorMap_def by (intro sized_map s)
  then have sh: "shape3 img = (224, 200, 3)" by (simp add: shape3_sized)
  have "resize_for_cnn cv a (224, 224) w = (Inr img, w)"
    unfolding resize_for_cnn_def m[symmetric] img_def
    using ne by (simp add: Let_def n c np_min_def np_max_def del: set_concat)
  with sh show ?thesis by blast
qed

theorem resize_for_cnn_keeps_width_witness:
  "sized (arrays tall_world ! 0) 224 200 \<and>
   resize_for_cnn cv_nearest 0 (224, 224) tall_world =
     (Inr (replicate 224 (replicate 200 (0, 0, 128))), tall_world) \<and>
   shape3 (replicate 224 (replicate 200 (0, 0, 128))) = (224, 200, 3)"
proof -
  have 1: "sized (arrays tall_world ! 0) 224 200"
    by (simp add: tall_world_def sized_def list_all_iff)
  from resize_for_cnn_keeps_width [OF refl 1, of cv_nearest] 1 tall_image
  show ?thesis by auto
qed

text \<open>
  C9.  A call of \<open>resize_for_cnn\<close> leaves the process state as it found it, the
  generator included, and its result is determined by the cells of the matrix it is
  given and the target size: two calls on equal matrices return the same image, in
  whatever states they run.
\<close>

theorem resize_for_cnn_deterministic:
  "snd (resize_for_cnn cv a ts w) = w \<and>
   (arrays w1 ! a1 = arrays w2 ! a2 \<longrightarrow>
      fst (resize_for_cnn cv a1 ts w1) = fst (resize_for_cnn cv a2 ts w2))"
  using resize_for_cnn_state resize_for_cnn_reads_only_spec by blast

theorem resize_for_cnn_deterministic_witness:
  "arrays grid_world ! 0 = arrays later_world ! 1 \<and>
   drawn grid_world \<noteq> drawn later_world \<and>
   resize_for_cnn cv_nearest 0 (2, 2) grid_world =
     (Inr [[(0, 0, 128), (0, 0, 128)], [(0, 255, 0), (0, 255, 0)]], grid_world) \<and>
   fst (resize_for_cnn cv_nearest 1 (2, 2) later_world) =
     Inr [[(0, 0, 128), (0, 0, 128)], [(0, 255, 0), (0, 255, 0)]]"
proof -
  have 1: "arrays grid_world ! 0 = arrays later_world ! 1"
    and 2: "drawn grid_world \<noteq> drawn later_world"
    by (simp_all add: grid_world_def later_world_def)
  from resize_for_cnn_deterministic [of cv_nearest 0 "(2, 2)" grid_world grid_world 0 later_world 1]
    1 2 grid_image
  show ?thesis by simp
qed

end
